theory Spec2Isabelle
  imports Main "HOL-Library.Sublist"
begin

section \<open>Go library functions used by main.go\<close>

text \<open>
  Go strings are byte sequences; they are modelled as \<^typ>\<open>string\<close> (a list of 8-bit
  characters).  Only the library behaviour that main.go relies on is modelled; every
  restriction is stated where it is made.
\<close>

subsection \<open>Package strings\<close>

text \<open>\<^verbatim>\<open>strings.Index(s, substr)\<close>: the byte index of the first occurrence of
  \<open>substr\<close> in \<open>s\<close>; \<open>None\<close> stands for Go's \<open>-1\<close>.\<close>

fun strings_Index :: "string \<Rightarrow> string \<Rightarrow> nat option" where
  "strings_Index [] substr = (if substr = [] then Some 0 else None)"
| "strings_Index (c # s) substr =
     (if prefix substr (c # s) then Some 0 else map_option Suc (strings_Index s substr))"

text \<open>\<^verbatim>\<open>strings.Contains(s, substr)\<close> is \<^verbatim>\<open>Index(s, substr) >= 0\<close>.\<close>

definition strings_Contains :: "string \<Rightarrow> string \<Rightarrow> bool" where
  "strings_Contains s substr = (strings_Index s substr \<noteq> None)"

text \<open>\<^verbatim>\<open>strings.Replace(s, old, new, 1)\<close>, the only count main.go uses.  Go returns \<open>s\<close>
  itself when \<open>old == new\<close> or when \<open>old\<close> does not occur; otherwise it copies
  \<open>s[:j]\<close>, \<open>new\<close> and \<open>s[j+len(old):]\<close> for \<open>j = Index(s, old)\<close>.\<close>

definition strings_Replace_1 :: "string \<Rightarrow> string \<Rightarrow> string \<Rightarrow> string" where
  "strings_Replace_1 s old new =
     (if old = new then s
      else case strings_Index s old of
             None \<Rightarrow> s
           | Some j \<Rightarrow> take j s @ new @ drop (j + length old) s)"

text \<open>\<^verbatim>\<open>strings.ToUpper\<close> on ASCII letters.  Go maps every Unicode letter; main.go only
  passes the environment name, which \<open>main\<close> has checked to be \<open>dev\<close> or \<open>prod\<close>.\<close>

definition toUpper_byte :: "char \<Rightarrow> char" where
  "toUpper_byte c =
     (let n = (of_char c :: nat) in if 97 \<le> n \<and> n \<le> 122 then char_of (n - 32) else c)"

definition strings_ToUpper :: "string \<Rightarrow> string" where
  "strings_ToUpper s = map toUpper_byte s"

text \<open>\<^verbatim>\<open>strings.Split(s, sep)\<close> for a one-byte separator: the pieces between the separators,
  always at least one.\<close>

fun split_from :: "string \<Rightarrow> string \<Rightarrow> char \<Rightarrow> string list" where
  "split_from cur [] sep = [cur]"
| "split_from cur (c # s) sep =
     (if c = sep then cur # split_from [] s sep else split_from (cur @ [c]) s sep)"

definition strings_Split :: "string \<Rightarrow> char \<Rightarrow> string list" where
  "strings_Split s sep = split_from [] s sep"

text \<open>\<^verbatim>\<open>strings.Fields\<close> on ASCII text: the maximal runs of bytes that are not one of
  tab, line feed, vertical tab, form feed, carriage return and space.  (Go also splits at
  the Unicode spaces beyond ASCII.)\<close>

definition asciiSpace :: "char \<Rightarrow> bool" where
  "asciiSpace c = (c \<in> set [CHR 0x09, CHR 0x0A, CHR 0x0B, CHR 0x0C, CHR 0x0D, CHR '' ''])"

fun fields_from :: "string \<Rightarrow> string \<Rightarrow> string list" where
  "fields_from cur [] = (if cur = [] then [] else [cur])"
| "fields_from cur (c # s) =
     (if asciiSpace c then (if cur = [] then fields_from [] s else cur # fields_from [] s)
      else fields_from (cur @ [c]) s)"

definition strings_Fields :: "string \<Rightarrow> string list" where
  "strings_Fields s = fields_from [] s"

subsection \<open>Package fmt\<close>

text \<open>\<^verbatim>\<open>fmt.Sprintf\<close> with string operands, for formats made of literal text and the
  verbs \<open>%s\<close> and \<open>%%\<close> (main.go uses no other verb on strings).  A \<open>%s\<close> without an
  operand prints \<open>%!s(MISSING)\<close>, as in Go.\<close>

fun fmt_Sprintf :: "string \<Rightarrow> string list \<Rightarrow> string" where
  "fmt_Sprintf [] args = []"
| "fmt_Sprintf [c] args = [c]"
| "fmt_Sprintf (c # d # format) args =
     (if c = CHR ''%'' \<and> d = CHR ''s'' then
        (case args of
           [] \<Rightarrow> ''%!s(MISSING)'' @ fmt_Sprintf format []
         | a # rest \<Rightarrow> a @ fmt_Sprintf format rest)
      else if c = CHR ''%'' \<and> d = CHR ''%'' then CHR ''%'' # fmt_Sprintf format args
      else c # fmt_Sprintf (d # format) args)"

subsection \<open>Package bufio\<close>

text \<open>\<^verbatim>\<open>bufio.Scanner\<close> with the default split function \<open>ScanLines\<close>: a token is the
  bytes up to the next line feed, without one trailing carriage return; a final
  unterminated non-empty rest is a token as well.  The scanner's buffer holds at most
  \<open>MaxScanTokenSize\<close> bytes: when that many bytes hold no line feed, \<open>Scan\<close> returns
  false (with \<open>ErrTooLong\<close>, which main.go never inspects) and the loop over the lines ends.\<close>

definition MaxScanTokenSize :: nat where
  "MaxScanTokenSize = 65536"

definition dropCR :: "string \<Rightarrow> string" where
  "dropCR data = (if data \<noteq> [] \<and> last data = CHR 0x0D then butlast data else data)"

fun Scanner_lines :: "string \<Rightarrow> string list" where
  "Scanner_lines [] = []"
| "Scanner_lines (c # data) =
     (let raw = takeWhile (\<lambda>b. b \<noteq> CHR 0x0A) (c # data) in
      if MaxScanTokenSize \<le> length raw then []
      else dropCR raw # Scanner_lines (drop (Suc (length raw)) (c # data)))"

subsection \<open>Package regexp\<close>

text \<open>The pattern main.go compiles is \<open>master + `_(\w{8})`\<close>: the branch name is spliced
  into the pattern unescaped.  The model gives the meaning of that pattern for branch
  names that are literal in RE2 syntax: ASCII bytes other than the metacharacters
  \<^verbatim>\<open>\ . + * ? ( ) | [ ] { } ^ $\<close>.  Theorems about matching assume \<open>regexp_literal\<close>.\<close>

definition regexp_meta :: "char \<Rightarrow> bool" where
  "regexp_meta c = (c \<in> set [CHR 0x5C, CHR ''.'', CHR ''+'', CHR ''*'', CHR ''?'', CHR ''('',
     CHR '')'', CHR ''|'', CHR ''['', CHR '']'', CHR ''{'', CHR ''}'', CHR ''^'', CHR ''$''])"

definition regexp_literal :: "string \<Rightarrow> bool" where
  "regexp_literal master = list_all (\<lambda>c. (of_char c :: nat) < 128 \<and> \<not> regexp_meta c) master"

text \<open>The Perl class \<open>\w\<close> of RE2 is ASCII only: \<open>[0-9A-Za-z_]\<close>.\<close>

definition is_word :: "char \<Rightarrow> bool" where
  "is_word c =
     (let n = (of_char c :: nat) in
      (48 \<le> n \<and> n \<le> 57) \<or> (65 \<le> n \<and> n \<le> 90) \<or> (97 \<le> n \<and> n \<le> 122) \<or> n = 95)"

text \<open>An attempt to match \<open>master_(\w{8})\<close> at the very start of \<open>s\<close>.  The result
  has the shape of \<open>FindStringSubmatch\<close>: the whole match and the capture, or the empty
  list (Go's nil) when there is no match.\<close>

definition match_here :: "string \<Rightarrow> string \<Rightarrow> string list" where
  "match_here master s =
     (let p = master @ ''_''; cap = take 8 (drop (length p) s) in
      if prefix p s \<and> length cap = 8 \<and> list_all is_word cap then [p @ cap, cap] else [])"

text \<open>\<^verbatim>\<open>re.FindStringSubmatch(line)\<close>: the leftmost match.\<close>

fun FindStringSubmatch :: "string \<Rightarrow> string \<Rightarrow> string list" where
  "FindStringSubmatch master [] = match_here master []"
| "FindStringSubmatch master (c # s) =
     (case match_here master (c # s) of
        [] \<Rightarrow> FindStringSubmatch master s
      | m # ms \<Rightarrow> m # ms)"

section \<open>The world outside the process\<close>

text \<open>Error values.  \<open>Errorf\<close> is \<^verbatim>\<open>fmt.Errorf\<close>: its format, its string operands and the
  error it wraps with \<open>%w\<close>.  The other constructors are errors made outside main.go.\<close>

datatype error =
    PathError string string
  | ExternalError string
  | Errorf string "string list" "error option"

text \<open>What a function of main.go does: it returns a value, returns an error, or panics.\<close>

datatype 'a result = Ok 'a | Err error | Panic string

text \<open>The go-github types, with their pointer fields as options, and the nil-safe getters.\<close>

datatype GitObject = GitObject (SHA: "string option")

datatype Reference = Reference (Object: "GitObject option")

datatype PullRequest = PullRequest (HTMLURL: "string option")

record NewPullRequest =
  Title :: string
  Body :: string
  Head :: string
  Base :: string

definition Reference_GetObject :: "Reference option \<Rightarrow> GitObject option" where
  "Reference_GetObject r = (case r of None \<Rightarrow> None | Some ref \<Rightarrow> Object ref)"

definition GitObject_GetSHA :: "GitObject option \<Rightarrow> string" where
  "GitObject_GetSHA g = (case g of None \<Rightarrow> [] | Some obj \<Rightarrow> (case SHA obj of None \<Rightarrow> [] | Some s \<Rightarrow> s))"

definition PullRequest_GetHTMLURL :: "PullRequest option \<Rightarrow> string" where
  "PullRequest_GetHTMLURL p = (case p of None \<Rightarrow> [] | Some pr \<Rightarrow> (case HTMLURL pr of None \<Rightarrow> [] | Some u \<Rightarrow> u))"

text \<open>Every call that leaves the process is recorded: a command run, a reference lookup
  (token, owner, repository, reference) and a pull-request creation (token, owner,
  repository, request).\<close>

datatype call =
    Exec string "string list"
  | GetRef string string string string
  | CreatePullRequest string string string NewPullRequest

record world =
  files :: "string \<rightharpoonup> string"
  readonly :: "string set"
  calls :: "call list"

text \<open>The collaborators are parameters of the model: what a command prints and does to
  the files, and what the GitHub API answers, each depending on everything so far.\<close>

record ext =
  exec_Run :: "world \<Rightarrow> string \<Rightarrow> string list \<Rightarrow> (error + string) \<times> world"
  Git_GetRef :: "world \<Rightarrow> string \<Rightarrow> string \<Rightarrow> string \<Rightarrow> string \<Rightarrow> error + Reference option"
  PullRequests_Create ::
    "world \<Rightarrow> string \<Rightarrow> string \<Rightarrow> string \<Rightarrow> NewPullRequest \<Rightarrow> error + PullRequest option"

subsection \<open>Package os\<close>

definition os_Open :: "world \<Rightarrow> string \<Rightarrow> error + string" where
  "os_Open w name = (case files w name of None \<Rightarrow> Inl (PathError ''open'' name) | Some data \<Rightarrow> Inr data)"

definition os_ReadFile :: "world \<Rightarrow> string \<Rightarrow> error + string" where
  "os_ReadFile w name = (case files w name of None \<Rightarrow> Inl (PathError ''open'' name) | Some data \<Rightarrow> Inr data)"

definition os_WriteFile :: "world \<Rightarrow> string \<Rightarrow> string \<Rightarrow> (error + unit) \<times> world" where
  "os_WriteFile w name data =
     (if name \<in> readonly w then (Inl (PathError ''open'' name), w)
      else (Inr (), w\<lparr>files := (files w)(name \<mapsto> data)\<rparr>))"

text \<open>A slice expression \<open>s[:n]\<close> panics when \<open>n\<close> exceeds the length.\<close>

definition slice_to :: "string \<Rightarrow> nat \<Rightarrow> string result" where
  "slice_to s n = (if n \<le> length s then Ok (take n s) else Panic ''slice bounds out of range'')"

section \<open>main.go\<close>

subsection \<open>runCommand\<close>

definition runCommand :: "ext \<Rightarrow> string \<Rightarrow> string list \<Rightarrow> world \<Rightarrow> string result \<times> world" where
  "runCommand x name args w =
     (case exec_Run x w name args of
        (r, w1) \<Rightarrow>
          (let w2 = w1\<lparr>calls := calls w @ [Exec name args]\<rparr> in
           case r of
             Inl err \<Rightarrow> (Err (Errorf ''run: %w'' [] (Some err)), w2)
           | Inr out \<Rightarrow> (Ok out, w2)))"

subsection \<open>extractNewCommitHash\<close>

definition extractNewCommitHash ::
  "ext \<Rightarrow> string \<Rightarrow> string \<Rightarrow> string \<Rightarrow> string \<Rightarrow> world \<Rightarrow> string result \<times> world" where
  "extractNewCommitHash x gh master owner repository w =
     (let w1 = w\<lparr>calls := calls w @ [GetRef gh owner repository (''refs/heads/'' @ master)]\<rparr> in
      case Git_GetRef x w gh owner repository (''refs/heads/'' @ master) of
        Inl err \<Rightarrow> (Err (Errorf ''error getting ref: %w'' [] (Some err)), w1)
      | Inr ref \<Rightarrow> (slice_to (GitObject_GetSHA (Reference_GetObject ref)) 8, w1))"

subsection \<open>extractOldCommitHash\<close>

text \<open>The loop over \<open>scanner.Scan()\<close>, on the lines still to come.\<close>

fun scan_loop :: "string \<Rightarrow> string \<Rightarrow> string list \<Rightarrow> string result" where
  "scan_loop master yamlTag [] = Err (Errorf ''commit hash not found'' [] None)"
| "scan_loop master yamlTag (line # rest) =
     (if strings_Contains line yamlTag then
        (let match = FindStringSubmatch master line in
         if length match > 1 then Ok (match ! 1) else scan_loop master yamlTag rest)
      else scan_loop master yamlTag rest)"

definition extractOldCommitHash ::
  "string \<Rightarrow> string \<Rightarrow> string \<Rightarrow> world \<Rightarrow> string result \<times> world" where
  "extractOldCommitHash filePath master yamlTag w =
     (case os_Open w filePath of
        Inl err \<Rightarrow> (Err (Errorf ''open file: %w'' [] (Some err)), w)
      | Inr file \<Rightarrow> (scan_loop master yamlTag (Scanner_lines file), w))"

subsection \<open>createOrCheckoutBranch\<close>

definition createOrCheckoutBranch :: "ext \<Rightarrow> string \<Rightarrow> world \<Rightarrow> unit result \<times> world" where
  "createOrCheckoutBranch x branch w =
     (case runCommand x ''git'' [''rev-parse'', ''--verify'', branch] w of
        (Ok _, w1) \<Rightarrow>
          (case runCommand x ''git'' [''checkout'', branch] w1 of
             (Ok _, w2) \<Rightarrow> (Ok (), w2)
           | (Err err, w2) \<Rightarrow> (Err (Errorf ''run git checkout %s: %w'' [branch] (Some err)), w2)
           | (Panic p, w2) \<Rightarrow> (Panic p, w2))
      | (_, w1) \<Rightarrow>
          (case runCommand x ''git'' [''checkout'', ''-b'', branch] w1 of
             (Ok _, w2) \<Rightarrow> (Ok (), w2)
           | (Err err, w2) \<Rightarrow> (Err (Errorf ''run git checkout -b %s: %w'' [branch] (Some err)), w2)
           | (Panic p, w2) \<Rightarrow> (Panic p, w2)))"

subsection \<open>updateYamlFile\<close>

definition updateYamlFile ::
  "string \<Rightarrow> string \<Rightarrow> string \<Rightarrow> string \<Rightarrow> string \<Rightarrow> world \<Rightarrow> unit result \<times> world" where
  \<open>updateYamlFile filePath master yamlTag oldCommitHash newCommitHash w =
     (case os_ReadFile w filePath of
        Inl err \<Rightarrow> (Err (Errorf ''read file: %w'' [] (Some err)), w)
      | Inr input \<Rightarrow>
          (let output = strings_Replace_1 input
                 (fmt_Sprintf ''%s: "%s_%s"'' [yamlTag, master, oldCommitHash])
                 (fmt_Sprintf ''%s: "%s_%s"'' [yamlTag, master, newCommitHash]) in
           case os_WriteFile w filePath output of
             (Inl err, w1) \<Rightarrow> (Err (Errorf ''write file: %w'' [] (Some err)), w1)
           | (Inr _, w1) \<Rightarrow> (Ok (), w1)))\<close>

subsection \<open>gitCommit and gitPush\<close>

definition gitCommit :: "ext \<Rightarrow> string \<Rightarrow> string \<Rightarrow> string \<Rightarrow> string \<Rightarrow> world \<Rightarrow> unit result \<times> world" where
  \<open>gitCommit x filePath env repo commitHash w =
     (case runCommand x ''git'' [''add'', filePath] w of
        (Err err, w1) \<Rightarrow> (Err (Errorf ''run git add: %w'' [] (Some err)), w1)
      | (Panic p, w1) \<Rightarrow> (Panic p, w1)
      | (Ok _, w1) \<Rightarrow>
          (let commitMessage = fmt_Sprintf ''%s %s %s'' [repo, strings_ToUpper env, commitHash] in
           case runCommand x ''git'' [''commit'', ''-m'', commitMessage] w1 of
             (Err err, w2) \<Rightarrow> (Err (Errorf ''run git commit -m "%s": %w'' [commitMessage] (Some err)), w2)
           | (Panic p, w2) \<Rightarrow> (Panic p, w2)
           | (Ok _, w2) \<Rightarrow> (Ok (), w2)))\<close>

definition gitPush :: "ext \<Rightarrow> string \<Rightarrow> world \<Rightarrow> unit result \<times> world" where
  "gitPush x branch w =
     (case runCommand x ''git'' [''push'', ''origin'', branch] w of
        (Err err, w1) \<Rightarrow> (Err (Errorf ''run push: %w'' [] (Some err)), w1)
      | (Panic p, w1) \<Rightarrow> (Panic p, w1)
      | (Ok _, w1) \<Rightarrow> (Ok (), w1))"

subsection \<open>createPullRequest\<close>

definition createPullRequest ::
  "ext \<Rightarrow> string \<Rightarrow> string \<Rightarrow> string \<Rightarrow> string \<Rightarrow> string \<Rightarrow> string \<Rightarrow> world \<Rightarrow> string result \<times> world" where
  "createPullRequest x gh owner branch master title description w =
     (let pr = \<lparr>Title = title, Body = description, Head = branch, Base = master\<rparr>;
          w1 = w\<lparr>calls := calls w @ [CreatePullRequest gh owner ''devops'' pr]\<rparr> in
      case PullRequests_Create x w gh owner ''devops'' pr of
        Inl err \<Rightarrow> (Err (Errorf ''create pull request: %w'' [] (Some err)), w1)
      | Inr createdPR \<Rightarrow> (Ok (PullRequest_GetHTMLURL createdPR), w1))"

subsection \<open>main\<close>

text \<open>The command line: the flags \<open>-c -o -r -e -f -t -m\<close> after \<open>flag.Parse()\<close>.\<close>

record Flags =
  flag_c :: string
  flag_o :: string
  flag_r :: string
  flag_e :: string
  flag_f :: string
  flag_t :: string
  flag_m :: string

text \<open>The calls of \<open>log.Fatal\<close> and \<open>log.Fatalf\<close> in \<open>main\<close>, in source order, each with
  the operands of its message.\<close>

datatype fatal =
    EnvironmentMustBeDevOrProd
  | OrganizationRequired
  | RepositoryRequired
  | FailedToGetToken error
  | FailedToExtractNewestMaster error
  | CouldNotExtractReleaseTag string error
  | FailedToCreateOrCheckoutBranch error
  | FailedToUpdateYamlFile error
  | FailedToCommitChanges error
  | FailedToPushBranch error
  | FailedToCreatePullRequest error

text \<open>How the process ends: it prints the confirmation, dies in \<open>log.Fatal\<close>, or panics.\<close>

datatype outcome = Printed string | Fatal fatal | Crashed string

text \<open>The idiom \<^verbatim>\<open>if err != nil { log.Fatalf(..., err) }\<close> after a call: the run goes on
  with the value only when the call returned no error.\<close>

definition orFatal ::
  "'a result \<times> world \<Rightarrow> (error \<Rightarrow> fatal) \<Rightarrow> ('a \<Rightarrow> world \<Rightarrow> outcome \<times> world) \<Rightarrow> outcome \<times> world" where
  "orFatal r msg k =
     (case r of
        (Ok v, w) \<Rightarrow> k v w
      | (Err err, w) \<Rightarrow> (Fatal (msg err), w)
      | (Panic p, w) \<Rightarrow> (Crashed p, w))"

text \<open>Lines 48 to 57: the first line of the command's output that contains \<open>Token:\<close> and
  has at least two fields gives the token, its third field; with exactly two fields the
  index expression \<open>parts[2]\<close> panics.  Without such a line the whole output stays.
  The loop returns no error, so in \<open>main\<close> only its value and its panic go on.\<close>

fun token_loop :: "string \<Rightarrow> string list \<Rightarrow> string result" where
  "token_loop ghToken [] = Ok ghToken"
| "token_loop ghToken (line # lines) =
     (if strings_Contains line ''Token:'' then
        (let parts = strings_Fields line in
         if length parts \<ge> 2 then
           (if 2 < length parts then Ok (parts ! 2) else Panic ''index out of range [2] with length 2'')
         else token_loop ghToken lines)
      else token_loop ghToken lines)"

text \<open>Lines 66 to 72: the new identifier is the flag \<open>-c\<close> when it is not empty, and the
  looked-up tip of the main branch otherwise.\<close>

definition main_newCommitHash :: "ext \<Rightarrow> string \<Rightarrow> Flags \<Rightarrow> world \<Rightarrow> string result \<times> world" where
  "main_newCommitHash x gh fl w =
     (if flag_c fl = [] then extractNewCommitHash x gh (flag_m fl) (flag_o fl) (flag_r fl) w
      else (Ok (flag_c fl), w))"

text \<open>Lines 79, 99 and 100: the three derived names.\<close>

definition main_branchName :: "string \<Rightarrow> string \<Rightarrow> string \<Rightarrow> string" where
  "main_branchName repo env newCommitHash = fmt_Sprintf ''%s_%s_%s'' [repo, env, newCommitHash]"

definition main_title :: "string \<Rightarrow> string \<Rightarrow> string \<Rightarrow> string" where
  "main_title repo env newCommitHash =
     fmt_Sprintf ''%s %s %s'' [repo, strings_ToUpper env, newCommitHash]"

definition main_description :: "string \<Rightarrow> string \<Rightarrow> string \<Rightarrow> string \<Rightarrow> string" where
  "main_description owner repo oldCommitHash newCommitHash =
     fmt_Sprintf ''https://github.com/%s/%s/compare/%s...%s''
       [owner, repo, oldCommitHash, newCommitHash]"

definition main :: "ext \<Rightarrow> Flags \<Rightarrow> world \<Rightarrow> outcome \<times> world" where
  "main x fl w =
     (if flag_e fl \<noteq> ''dev'' \<and> flag_e fl \<noteq> ''prod'' then (Fatal EnvironmentMustBeDevOrProd, w)
      else if flag_o fl = [] then (Fatal OrganizationRequired, w)
      else if flag_r fl = [] then (Fatal RepositoryRequired, w)
      else
        orFatal (runCommand x ''gh'' [''auth'', ''status'', ''--show-token''] w) FailedToGetToken
          (\<lambda>out w.
        orFatal (token_loop out (strings_Split out CHR 0x0A), w) FailedToGetToken
          (\<lambda>gh w.
        orFatal (main_newCommitHash x gh fl w) FailedToExtractNewestMaster
          (\<lambda>newCommitHash w.
        orFatal (extractOldCommitHash (flag_f fl) (flag_m fl) (flag_t fl) w)
          (CouldNotExtractReleaseTag (flag_f fl))
          (\<lambda>oldCommitHash w.
        let branchName = main_branchName (flag_r fl) (flag_e fl) newCommitHash in
        orFatal (createOrCheckoutBranch x branchName w) FailedToCreateOrCheckoutBranch
          (\<lambda>_ w.
        orFatal (updateYamlFile (flag_f fl) (flag_m fl) (flag_t fl) oldCommitHash newCommitHash w)
          FailedToUpdateYamlFile
          (\<lambda>_ w.
        orFatal (gitCommit x (flag_f fl) (flag_e fl) (flag_r fl) newCommitHash w) FailedToCommitChanges
          (\<lambda>_ w.
        orFatal (gitPush x branchName w) FailedToPushBranch
          (\<lambda>_ w.
        let title = main_title (flag_r fl) (flag_e fl) newCommitHash;
            description = main_description (flag_o fl) (flag_r fl) oldCommitHash newCommitHash in
        orFatal (createPullRequest x gh (flag_o fl) branchName (flag_m fl) title description w)
          FailedToCreatePullRequest
          (\<lambda>pullRequestURL w.
        (Printed (fmt_Sprintf
           ''Pull request created successfully\<newline>URL: %s\<newline>Title: %s\<newline>Description:\<newline>%s\<newline>''
           [pullRequestURL, title, description]), w)))))))))))"


subsection \<open>The record of calls\<close>

text \<open>A device for the proofs about \<open>main\<close>: the world \<open>w'\<close> has the calls of \<open>w\<close>
  followed by further calls, each of which satisfies \<open>P\<close>.\<close>

definition extends_with :: "(call \<Rightarrow> bool) \<Rightarrow> world \<Rightarrow> world \<Rightarrow> bool" where
  "extends_with P w w' = (\<exists>cs. calls w' = calls w @ cs \<and> list_all P cs)"

section \<open>Sample manifests and collaborators\<close>

text \<open>Concrete inputs on which the theorems below are instantiated.\<close>

definition manifest_two_tags :: string where
  \<open>manifest_two_tags = ''my_image: "master_bbbbbbbb"\<newline>image: "master_aaaaaaaa"\<newline>''\<close>

definition manifest_same_pin :: string where
  \<open>manifest_same_pin = ''tag: "master_aaaaaaaa"\<newline>other_tag: "master_aaaaaaaa"\<newline>''\<close>

definition manifest_pins :: string where
  \<open>manifest_pins = ''# pins\<newline>image: latest\<newline>image: "master_11111111"\<newline>image: "master_99999999"\<newline>''\<close>

definition manifest_no_match :: string where
  \<open>manifest_no_match = ''# pins\<newline>image: latest\<newline>sidecar: "master_11111111"\<newline>''\<close>

definition manifest_long_token :: string where
  \<open>manifest_long_token = ''image: "master_123456789abc"\<newline>''\<close>

definition manifest_web_api :: string where
  \<open>manifest_web_api = ''web: "master_bbbbbbbb"\<newline>api: "master_aaaaaaaa"\<newline>''\<close>

definition manifest_api :: string where
  \<open>manifest_api = ''api: "master_aaaaaaaa"\<newline>''\<close>

definition manifest_one_pin :: string where
  \<open>manifest_one_pin = ''tag: "master_aaaaaaaa"\<newline>''\<close>

definition world_of :: "string \<Rightarrow> world" where
  "world_of manifest = \<lparr>files = [''values.yaml'' \<mapsto> manifest], readonly = {}, calls = []\<rparr>"

definition world_same_pin :: world where
  "world_same_pin = \<lparr>files = [''values.yaml'' \<mapsto> manifest_same_pin], readonly = {}, calls = []\<rparr>"

definition ext_no_object :: ext where
  "ext_no_object =
     \<lparr>exec_Run = (\<lambda>w name args. (Inl (ExternalError ''exit status 1''), w)),
      Git_GetRef = (\<lambda>w gh owner repo ref. Inr (Some (Reference None))),
      PullRequests_Create = (\<lambda>w gh owner repo pr. Inl (ExternalError ''422''))\<rparr>"


text \<open>The end-to-end scenario: the manifest pins \<open>image\<close> to \<open>master_11111111\<close>, the new
  identifier \<open>22222222\<close> is given with \<open>-c\<close>, the token comes from the output of
  \<open>gh auth status\<close>, the branch does not exist yet (\<open>git rev-parse\<close> fails), and every
  other command and the GitHub API succeed.\<close>

definition manifest_e2e :: string where
  \<open>manifest_e2e = ''image: "master_11111111"\<newline>''\<close>

definition flags_e2e :: Flags where
  "flags_e2e = \<lparr>flag_c = ''22222222'', flag_o = ''acme'', flag_r = ''svc'', flag_e = ''dev'',
      flag_f = ''values.yaml'', flag_t = ''image'', flag_m = ''master''\<rparr>"

definition gh_auth_status :: string where
  "gh_auth_status = ''github.com\<newline>  - Token: gho_token\<newline>''"

definition ext_success :: ext where
  "ext_success =
     \<lparr>exec_Run = (\<lambda>w name args.
         if name = ''gh'' then (Inr gh_auth_status, w)
         else if take 1 args = [''rev-parse''] then (Inl (ExternalError ''exit status 128''), w)
         else (Inr [], w)),
      Git_GetRef = (\<lambda>w gh owner repo ref.
         Inr (Some (Reference (Some (GitObject (Some ''0123456789abcdef0123456789abcdef01234567'')))))),
      PullRequests_Create = (\<lambda>w gh owner repo pr.
         Inr (Some (PullRequest (Some ''https://github.com/acme/devops/pull/7''))))\<rparr>"

section \<open>Properties of the library functions\<close>

lemmas eval_defs = MaxScanTokenSize_def dropCR_def strings_Contains_def match_here_def is_word_def
  Let_def regexp_literal_def regexp_meta_def world_of_def

subsection \<open>Index, Contains and Replace\<close>

lemma strings_Index_None_iff: "strings_Index s sub = None \<longleftrightarrow> \<not> sublist sub s"
  by (induction s) (auto simp: sublist_Cons_right)

lemma strings_Contains_iff: "strings_Contains s sub \<longleftrightarrow> (\<exists>pre post. s = pre @ sub @ post)"
  by (simp add: strings_Contains_def strings_Index_None_iff sublist_def)

lemma strings_Index_Some_D:
  "strings_Index s sub = Some j \<Longrightarrow> j \<le> length s \<and> prefix sub (drop j s) \<and> (\<forall>i<j. \<not> prefix sub (drop i s))"
proof (induction s arbitrary: j)
  case Nil
  then show ?case by (auto split: if_splits)
next
  case (Cons c s)
  show ?case
  proof (cases "prefix sub (c # s)")
    case True
    with Cons.prems show ?thesis by simp
  next
    case False
    with Cons.prems obtain k where k: "strings_Index s sub = Some k" "j = Suc k"
      by auto
    from Cons.IH[OF k(1)] have ih: "k \<le> length s" "prefix sub (drop k s)" "\<forall>i<k. \<not> prefix sub (drop i s)"
      by auto
    have "\<not> prefix sub (drop i (c # s))" if "i < j" for i
      using that False ih(3) k(2) by (cases i) auto
    with ih k show ?thesis by simp
  qed
qed

lemma strings_Index_first:
  assumes "s = pre @ sub @ post"
    and "\<And>pre' post'. s = pre' @ sub @ post' \<Longrightarrow> length pre \<le> length pre'"
  shows "strings_Index s sub = Some (length pre)"
proof -
  have "sublist sub s" using assms(1) by auto
  then obtain j where j: "strings_Index s sub = Some j"
    using strings_Index_None_iff[of s sub] by auto
  from strings_Index_Some_D[OF j] have a: "j \<le> length s" "prefix sub (drop j s)" "\<forall>i<j. \<not> prefix sub (drop i s)"
    by auto
  from a(2) obtain post' where "drop j s = sub @ post'" by (auto simp: prefix_def)
  then have "s = take j s @ sub @ post'" by (metis append_take_drop_id)
  from assms(2)[OF this] a(1) have "length pre \<le> j" by simp
  moreover have "\<not> length pre < j"
  proof
    assume "length pre < j"
    with a(3) have "\<not> prefix sub (drop (length pre) s)" by blast
    then show False using assms(1) by simp
  qed
  ultimately show ?thesis using j by simp
qed

lemma sublist_has_first:
  assumes "sublist sub (s :: string)"
  shows "\<exists>pre post. s = pre @ sub @ post \<and> (\<forall>pre' post'. s = pre' @ sub @ post' \<longrightarrow> length pre \<le> length pre')"
proof -
  from assms obtain j where j: "strings_Index s sub = Some j"
    using strings_Index_None_iff[of s sub] by auto
  from strings_Index_Some_D[OF j] have a: "j \<le> length s" "prefix sub (drop j s)" "\<forall>i<j. \<not> prefix sub (drop i s)"
    by auto
  from a(2) obtain post where "drop j s = sub @ post" by (auto simp: prefix_def)
  then have d: "s = take j s @ sub @ post" by (metis append_take_drop_id)
  have "length (take j s) \<le> length pre'" if "s = pre' @ sub @ post'" for pre' post'
  proof (rule ccontr)
    assume "\<not> length (take j s) \<le> length pre'"
    with a(1) have "length pre' < j" by simp
    with a(3) have "\<not> prefix sub (drop (length pre') s)" by blast
    with that show False by simp
  qed
  with d show ?thesis by blast
qed

lemma strings_Replace_1_first:
  assumes "s = pre @ old @ post"
    and "\<And>pre' post'. s = pre' @ old @ post' \<Longrightarrow> length pre \<le> length pre'"
  shows "strings_Replace_1 s old new = pre @ new @ post"
  using strings_Index_first[OF assms] assms(1) by (simp add: strings_Replace_1_def)

lemma strings_Replace_1_absent: "\<not> sublist old s \<Longrightarrow> strings_Replace_1 s old new = s"
  using strings_Index_None_iff[of s old] by (simp add: strings_Replace_1_def)


subsection \<open>The scanner gives up at a line of 64 KiB\<close>

lemma Scanner_lines_too_long:
  assumes "MaxScanTokenSize \<le> length raw" and "CHR 0x0A \<notin> set raw"
  shows "Scanner_lines (raw @ CHR 0x0A # rest) = []"
proof -
  from assms(1) obtain c cs where r: "raw = c # cs"
    by (cases raw) (auto simp: MaxScanTokenSize_def)
  have "takeWhile (\<lambda>b. b \<noteq> CHR 0x0A) (raw @ CHR 0x0A # rest) = raw"
  proof -
    have "\<And>x. x \<in> set raw \<Longrightarrow> x \<noteq> CHR 0x0A" using assms(2) by blast
    then have "takeWhile (\<lambda>b. b \<noteq> CHR 0x0A) (raw @ CHR 0x0A # rest) =
        raw @ takeWhile (\<lambda>b. b \<noteq> CHR 0x0A) (CHR 0x0A # rest)"
      by (rule takeWhile_append2)
    then show ?thesis by simp
  qed
  then have "takeWhile (\<lambda>b. b \<noteq> CHR 0x0A) (c # cs @ CHR 0x0A # rest) = c # cs"
    by (simp add: r)
  with assms(1) show ?thesis
    unfolding r by (simp only: append_Cons Scanner_lines.simps Let_def) simp
qed

subsection \<open>The pattern \<open>master_(\w{8})\<close>\<close>

lemma match_here_shape:
  "match_here master s = [] \<or>
   (\<exists>cap post. s = master @ ''_'' @ cap @ post \<and> length cap = 8 \<and> list_all is_word cap \<and>
      match_here master s = [master @ ''_'' @ cap, cap])"
proof (cases "match_here master s = []")
  case True
  then show ?thesis by simp
next
  case False
  define p where "p = master @ ''_''"
  define cap where "cap = take 8 (drop (length p) s)"
  from False have c: "prefix p s" "length cap = 8" "list_all is_word cap"
    and m: "match_here master s = [p @ cap, cap]"
    by (auto simp: match_here_def Let_def p_def cap_def split: if_splits)
  from c(1) obtain r where r: "s = p @ r" by (auto simp: prefix_def)
  then have "cap = take 8 r" by (simp add: cap_def)
  then have "r = cap @ drop 8 r" by simp
  with r have "s = master @ ''_'' @ cap @ drop 8 r" by (simp add: p_def)
  with c m show ?thesis unfolding p_def by (metis append.assoc)
qed

lemma match_here_complete:
  assumes "length cap = 8" and "list_all is_word cap"
  shows "match_here master (master @ ''_'' @ cap @ post) = [master @ ''_'' @ cap, cap]"
  using assms by (simp add: match_here_def Let_def)

lemma match_here_needs_prefix: "\<not> prefix (master @ ''_'') s \<Longrightarrow> match_here master s = []"
  by (simp add: match_here_def Let_def)

lemma FindStringSubmatch_skip:
  "(\<And>i. i < length a \<Longrightarrow> match_here master (drop i (a @ s)) = []) \<Longrightarrow>
   FindStringSubmatch master (a @ s) = FindStringSubmatch master s"
proof (induction a)
  case Nil
  then show ?case by simp
next
  case (Cons c a)
  from Cons.prems[of 0] have h: "match_here master (c # a @ s) = []" by simp
  have "match_here master (drop i (a @ s)) = []" if "i < length a" for i
    using Cons.prems[of "Suc i"] that by simp
  from Cons.IH[OF this] h show ?case by simp
qed

lemma FindStringSubmatch_at_match:
  "match_here master s = [m, cap] \<Longrightarrow> FindStringSubmatch master s = [m, cap]"
  by (cases s) auto

lemma FindStringSubmatch_shape:
  "FindStringSubmatch master l = [] \<or>
   (\<exists>a cap b. l = a @ master @ ''_'' @ cap @ b \<and> length cap = 8 \<and> list_all is_word cap \<and>
      FindStringSubmatch master l = [master @ ''_'' @ cap, cap])"
proof (induction l)
  case Nil
  then show ?case by (simp add: match_here_def Let_def)
next
  case (Cons c l)
  show ?case
  proof (cases "match_here master (c # l) = []")
    case True
    then have eq: "FindStringSubmatch master (c # l) = FindStringSubmatch master l" by simp
    from Cons.IH show ?thesis
    proof
      assume "FindStringSubmatch master l = []"
      with eq show ?thesis by simp
    next
      assume "\<exists>a cap b. l = a @ master @ ''_'' @ cap @ b \<and> length cap = 8 \<and> list_all is_word cap \<and>
        FindStringSubmatch master l = [master @ ''_'' @ cap, cap]"
      then obtain a cap b where "l = a @ master @ ''_'' @ cap @ b" "length cap = 8" "list_all is_word cap"
        "FindStringSubmatch master l = [master @ ''_'' @ cap, cap]" by blast
      then have "c # l = (c # a) @ master @ ''_'' @ cap @ b \<and> length cap = 8 \<and> list_all is_word cap \<and>
        FindStringSubmatch master (c # l) = [master @ ''_'' @ cap, cap]" using eq by simp
      then show ?thesis by blast
    qed
  next
    case False
    with match_here_shape[of master "c # l"] obtain cap post where
      x: "c # l = master @ ''_'' @ cap @ post" "length cap = 8" "list_all is_word cap"
      "match_here master (c # l) = [master @ ''_'' @ cap, cap]" by blast
    from x(4) have "FindStringSubmatch master (c # l) = [master @ ''_'' @ cap, cap]"
      by (rule FindStringSubmatch_at_match)
    with x have "c # l = [] @ master @ ''_'' @ cap @ post \<and> length cap = 8 \<and> list_all is_word cap \<and>
        FindStringSubmatch master (c # l) = [master @ ''_'' @ cap, cap]"
      by simp
    then show ?thesis by blast
  qed
qed

lemma FindStringSubmatch_complete:
  assumes "l = a @ master @ ''_'' @ cap @ b" and "length cap = 8" and "list_all is_word cap"
  shows "FindStringSubmatch master l \<noteq> []"
  using assms(1)
proof (induction a arbitrary: l)
  case Nil
  have "FindStringSubmatch master (master @ ''_'' @ cap @ b) = [master @ ''_'' @ cap, cap]"
    using match_here_complete[OF assms(2,3)] by (rule FindStringSubmatch_at_match)
  with Nil show ?case by simp
next
  case (Cons c a)
  have "FindStringSubmatch master (a @ master @ ''_'' @ cap @ b) \<noteq> []"
    by (rule Cons.IH) simp
  with Cons.prems show ?case
    by (cases "match_here master (c # a @ master @ ''_'' @ cap @ b)") auto
qed

lemma FindStringSubmatch_first_token:
  assumes "line = a @ master @ ''_'' @ ws @ b"
    and "strings_Index line (master @ ''_'') = Some (length a)"
    and "8 \<le> length ws" and "list_all is_word ws"
  shows "FindStringSubmatch master line = [master @ ''_'' @ take 8 ws, take 8 ws]"
proof -
  have no: "match_here master (drop i (a @ master @ ''_'' @ ws @ b)) = []" if "i < length a" for i
  proof -
    from strings_Index_Some_D[OF assms(2)] that have "\<not> prefix (master @ ''_'') (drop i line)"
      by blast
    then show ?thesis unfolding assms(1) by (rule match_here_needs_prefix)
  qed
  have w: "ws = take 8 ws @ drop 8 ws" by simp
  have "length (take 8 ws) = 8" "list_all is_word (take 8 ws)"
    using assms(3,4) by (auto simp: list_all_iff dest: in_set_takeD)
  then have "match_here master (master @ ''_'' @ take 8 ws @ (drop 8 ws @ b)) =
      [master @ ''_'' @ take 8 ws, take 8 ws]"
    by (rule match_here_complete)
  moreover have "take 8 ws @ (drop 8 ws @ b) = ws @ b"
    by (metis append_assoc append_take_drop_id)
  ultimately have "match_here master (master @ ''_'' @ ws @ b) = [master @ ''_'' @ take 8 ws, take 8 ws]"
    by (simp only:)
  then have "FindStringSubmatch master (master @ ''_'' @ ws @ b) = [master @ ''_'' @ take 8 ws, take 8 ws]"
    by (rule FindStringSubmatch_at_match)
  with FindStringSubmatch_skip[of a master "master @ ''_'' @ ws @ b", OF no] assms(1)
  show ?thesis by simp
qed


subsection \<open>Replacing one occurrence creates no new one\<close>

lemma occurrence_survives:
  fixes T R :: string
  assumes len: "length R = length T"
    and diff: "\<And>i. i < length T \<Longrightarrow> R ! i \<in> set T \<Longrightarrow> R ! i = T ! i"
    and occ: "pre @ R @ post = p' @ T @ q'"
  shows "\<exists>p'' q''. pre @ T @ post = p'' @ T @ q'' \<and> length p'' = length p'"
proof -
  define k where "k = length p'"
  define n where "n = length T"
  define X where "X = pre @ T @ post"
  define Y where "Y = pre @ R @ post"
  have lenXY: "length X = length Y" by (simp add: X_def Y_def len)
  have lenY: "k + n \<le> length Y" using occ by (simp add: Y_def k_def n_def)
  have Yocc: "Y ! (k + i) = T ! i" if "i < n" for i
    using that occ unfolding Y_def k_def n_def by (simp add: nth_append)
  have Xocc: "X ! (k + i) = T ! i" if i: "i < n" for i
  proof -
    consider "k + i < length pre" | "length pre \<le> k + i" "k + i < length pre + n" | "length pre + n \<le> k + i"
      by linarith
    then show ?thesis
    proof cases
      case 1
      then have "X ! (k + i) = Y ! (k + i)" by (simp add: X_def Y_def nth_append)
      with Yocc[OF i] show ?thesis by simp
    next
      case 2
      define j where "j = k + i - length pre"
      from 2 have j: "j < n" by (simp add: j_def)
      from 2 have "Y ! (k + i) = R ! j" by (auto simp: Y_def nth_append j_def len n_def)
      with Yocc[OF i] have e: "R ! j = T ! i" by simp
      with i have "R ! j \<in> set T" by (simp add: n_def)
      with diff[of j] j have "R ! j = T ! j" by (simp add: n_def)
      moreover from 2 have "X ! (k + i) = T ! j" by (auto simp: X_def nth_append j_def n_def)
      ultimately show ?thesis using e by simp
    next
      case 3
      then have "X ! (k + i) = Y ! (k + i)" by (auto simp: X_def Y_def nth_append len n_def)
      with Yocc[OF i] show ?thesis by simp
    qed
  qed
  have "take n (drop k X) = T"
  proof (rule nth_equalityI)
    show "length (take n (drop k X)) = length T" using lenXY lenY by (simp add: n_def)
  next
    fix i assume "i < length (take n (drop k X))"
    then have i: "i < n" by simp
    with lenXY lenY have "take n (drop k X) ! i = X ! (k + i)" by simp
    with Xocc[OF i] show "take n (drop k X) ! i = T ! i" by simp
  qed
  then have "X = take k X @ T @ drop n (drop k X)"
    by (metis append_take_drop_id)
  moreover have "length (take k X) = k" using lenXY lenY by simp
  ultimately show ?thesis unfolding X_def k_def by blast
qed

lemma splice_differs:
  fixes P A B Q :: string
  assumes "length A = length B" and "set B \<inter> set (P @ A @ Q) = {}"
    and "i < length (P @ A @ Q)" and "(P @ B @ Q) ! i \<in> set (P @ A @ Q)"
  shows "(P @ B @ Q) ! i = (P @ A @ Q) ! i"
proof -
  consider "i < length P" | "length P \<le> i" "i < length P + length B" | "length P + length B \<le> i"
    by linarith
  then show ?thesis
  proof cases
    case 1
    then show ?thesis by (simp add: nth_append)
  next
    case 2
    then have "(P @ B @ Q) ! i = B ! (i - length P)" by (auto simp: nth_append)
    moreover from 2 have "B ! (i - length P) \<in> set B" by simp
    ultimately have "(P @ B @ Q) ! i \<in> set B" by simp
    with assms(2,4) show ?thesis by blast
  next
    case 3
    then show ?thesis using assms(1) by (auto simp: nth_append)
  qed
qed

lemma patched_once_has_no_target:
  fixes P A B Q :: string
  assumes "length A = length B" and "set B \<inter> set (P @ A @ Q) = {}" and "A \<noteq> B"
    and uniq: "\<And>pre' post'. pre @ (P @ A @ Q) @ post = pre' @ (P @ A @ Q) @ post' \<Longrightarrow> pre' = pre"
  shows "\<not> sublist (P @ A @ Q) (pre @ (P @ B @ Q) @ post)"
proof
  assume "sublist (P @ A @ Q) (pre @ (P @ B @ Q) @ post)"
  then obtain p' q' where occ: "pre @ (P @ B @ Q) @ post = p' @ (P @ A @ Q) @ q'"
    unfolding sublist_def by blast
  have len: "length (P @ B @ Q) = length (P @ A @ Q)" using assms(1) by simp
  have "\<exists>p'' q''. pre @ (P @ A @ Q) @ post = p'' @ (P @ A @ Q) @ q'' \<and> length p'' = length p'"
    using len _ occ
  proof (rule occurrence_survives)
    fix i assume "i < length (P @ A @ Q)" "(P @ B @ Q) ! i \<in> set (P @ A @ Q)"
    with assms(1,2) show "(P @ B @ Q) ! i = (P @ A @ Q) ! i" by (rule splice_differs)
  qed
  then obtain p'' q'' where x: "pre @ (P @ A @ Q) @ post = p'' @ (P @ A @ Q) @ q''" "length p'' = length p'"
    by blast
  from uniq[OF x(1)] x(2) have "length p' = length pre" by simp
  with occ have "p' = pre" by (metis append_eq_append_conv)
  with occ have "P @ B @ Q = P @ A @ Q" using len by simp
  with assms(3) show False by simp
qed


section \<open>The functions of main.go\<close>

lemma scan_loop_skip:
  "\<forall>l\<in>set pre. \<not> strings_Contains l yamlTag \<or> FindStringSubmatch master l = [] \<Longrightarrow>
   scan_loop master yamlTag (pre @ rest) = scan_loop master yamlTag rest"
  by (induction pre) (auto simp: Let_def)

lemma scan_loop_drop_line:
  "\<not> strings_Contains l yamlTag \<Longrightarrow>
   scan_loop master yamlTag (pre @ l # post) = scan_loop master yamlTag (pre @ post)"
  by (induction pre) (auto simp: Let_def)

lemma extractOldCommitHash_lines:
  "files w filePath = Some content \<Longrightarrow>
   extractOldCommitHash filePath master yamlTag w =
     (scan_loop master yamlTag (Scanner_lines content), w)"
  by (simp add: extractOldCommitHash_def os_Open_def)

lemma updateYamlFile_output:
  assumes "files w filePath = Some content" and "filePath \<notin> readonly w"
  shows \<open>updateYamlFile filePath master yamlTag old new w =
    (Ok (), w\<lparr>files := (files w)(filePath \<mapsto>
       strings_Replace_1 content (yamlTag @ '': "'' @ master @ ''_'' @ old @ ''"'')
         (yamlTag @ '': "'' @ master @ ''_'' @ new @ ''"''))\<rparr>)\<close>
  using assms by (simp add: updateYamlFile_def os_ReadFile_def os_WriteFile_def)

lemma extractNewCommitHash_lookup_error:
  "Git_GetRef x w gh owner repository (''refs/heads/'' @ master) = Inl err \<Longrightarrow>
   fst (extractNewCommitHash x gh master owner repository w) = Err (Errorf ''error getting ref: %w'' [] (Some err))"
  by (simp add: extractNewCommitHash_def Let_def)

lemma extractNewCommitHash_first_8:
  "Git_GetRef x w gh owner repository (''refs/heads/'' @ master) = Inr (Some (Reference (Some (GitObject (Some sha))))) \<Longrightarrow>
   8 \<le> length sha \<Longrightarrow>
   fst (extractNewCommitHash x gh master owner repository w) = Ok (take 8 sha)"
  by (simp add: extractNewCommitHash_def Let_def Reference_GetObject_def GitObject_GetSHA_def slice_to_def)

lemma strings_ToUpper_dev: "strings_ToUpper ''dev'' = ''DEV''"
  by code_simp

lemma strings_ToUpper_prod: "strings_ToUpper ''prod'' = ''PROD''"
  by code_simp

lemma Scanner_lines_two_tags:
  \<open>Scanner_lines manifest_two_tags = [''my_image: "master_bbbbbbbb"'', ''image: "master_aaaaaaaa"'']\<close>
  by (simp add: manifest_two_tags_def MaxScanTokenSize_def dropCR_def)

lemma one_pin_unique:
  \<open>\<forall>pre' post'. manifest_one_pin = pre' @ ''tag: "master_aaaaaaaa"'' @ post' \<longrightarrow> pre' = []\<close>
proof (intro allI impI)
  fix pre' post' :: string
  assume a: \<open>manifest_one_pin = pre' @ ''tag: "master_aaaaaaaa"'' @ post'\<close>
  show "pre' = []"
  proof (cases pre')
    case Nil
    then show ?thesis .
  next
    case (Cons c cs)
    from arg_cong[OF a, of length] have "length pre' + length post' = 1"
      by (simp add: manifest_one_pin_def)
    with Cons have "cs = []" "post' = []" by simp_all
    with a Cons show ?thesis by (simp add: manifest_one_pin_def)
  qed
qed

subsection \<open>Files that cannot be opened or written\<close>

lemma extractOldCommitHash_open_error:
  "files w filePath = None \<Longrightarrow>
   extractOldCommitHash filePath master yamlTag w =
     (Err (Errorf ''open file: %w'' [] (Some (PathError ''open'' filePath))), w)"
  by (simp add: extractOldCommitHash_def os_Open_def)

lemma updateYamlFile_read_error:
  "files w filePath = None \<Longrightarrow>
   updateYamlFile filePath master yamlTag oldId newId w =
     (Err (Errorf ''read file: %w'' [] (Some (PathError ''open'' filePath))), w)"
  by (simp add: updateYamlFile_def os_ReadFile_def)

lemma updateYamlFile_write_error:
  "files w filePath = Some content \<Longrightarrow> filePath \<in> readonly w \<Longrightarrow>
   updateYamlFile filePath master yamlTag oldId newId w =
     (Err (Errorf ''write file: %w'' [] (Some (PathError ''open'' filePath))), w)"
  by (simp add: updateYamlFile_def os_ReadFile_def os_WriteFile_def)

subsection \<open>The calls a run records\<close>

lemma extends_refl: "extends_with P w w"
  by (simp add: extends_with_def)

lemma extends_same_calls: "calls w' = calls w \<Longrightarrow> extends_with P w w'"
  by (simp add: extends_with_def)

lemma extends_trans: "extends_with P w w1 \<Longrightarrow> extends_with P w1 w2 \<Longrightarrow> extends_with P w w2"
  by (auto simp: extends_with_def)

lemma runCommand_extends: "P (Exec name args) \<Longrightarrow> extends_with P w (snd (runCommand x name args w))"
  by (auto simp: runCommand_def extends_with_def Let_def split: prod.splits sum.splits)

lemma extractNewCommitHash_extends:
  "P (GetRef gh owner repository (''refs/heads/'' @ master)) \<Longrightarrow>
   extends_with P w (snd (extractNewCommitHash x gh master owner repository w))"
  by (auto simp: extractNewCommitHash_def extends_with_def Let_def split: sum.splits)

lemma extractOldCommitHash_world: "snd (extractOldCommitHash filePath master yamlTag w) = w"
  by (simp add: extractOldCommitHash_def split: sum.splits)

lemma updateYamlFile_calls:
  "calls (snd (updateYamlFile filePath master yamlTag oldId newId w)) = calls w"
  by (simp add: updateYamlFile_def os_WriteFile_def Let_def split: sum.splits prod.splits)

lemma createOrCheckoutBranch_extends:
  assumes "\<And>name args. P (Exec name args)"
  shows "extends_with P w (snd (createOrCheckoutBranch x branch w))"
proof -
  have r: "extends_with P v v'" if "runCommand x name args v = (res, v')" for v v' name args res
    using runCommand_extends[of P name args v x] assms that by simp
  show ?thesis
    unfolding createOrCheckoutBranch_def
    by (auto split: prod.splits result.splits) (blast intro: extends_trans dest: r)+
qed

lemma gitCommit_extends:
  assumes "\<And>name args. P (Exec name args)"
  shows "extends_with P w (snd (gitCommit x filePath env repo commitHash w))"
proof -
  have r: "extends_with P v v'" if "runCommand x name args v = (res, v')" for v v' name args res
    using runCommand_extends[of P name args v x] assms that by simp
  show ?thesis
    unfolding gitCommit_def Let_def
    by (auto split: prod.splits result.splits) (blast intro: extends_trans dest: r)+
qed

lemma gitPush_extends:
  assumes "\<And>name args. P (Exec name args)"
  shows "extends_with P w (snd (gitPush x branch w))"
proof -
  have r: "extends_with P v v'" if "runCommand x name args v = (res, v')" for v v' name args res
    using runCommand_extends[of P name args v x] assms that by simp
  show ?thesis
    unfolding gitPush_def
    by (auto split: prod.splits result.splits) (blast intro: extends_trans dest: r)+
qed

lemma createPullRequest_extends:
  "P (CreatePullRequest gh owner ''devops'' \<lparr>Title = title, Body = description, Head = branch, Base = master\<rparr>) \<Longrightarrow>
   extends_with P w (snd (createPullRequest x gh owner branch master title description w))"
  by (auto simp: createPullRequest_def extends_with_def Let_def split: sum.splits)

lemma orFatal_extends:
  assumes "extends_with P w (snd r)"
    and "\<And>v w1. r = (Ok v, w1) \<Longrightarrow> extends_with P w1 (snd (k v w1))"
  shows "extends_with P w (snd (orFatal r msg k))"
  using assms by (auto simp: orFatal_def split: prod.splits result.splits intro: extends_trans)

lemma main_extends:
  assumes exec: "\<And>name args. P (Exec name args)"
    and look: "\<And>gh. flag_c fl = [] \<Longrightarrow> P (GetRef gh (flag_o fl) (flag_r fl) (''refs/heads/'' @ flag_m fl))"
    and pr: "\<And>gh newId oldId. (flag_c fl \<noteq> [] \<longrightarrow> newId = flag_c fl) \<Longrightarrow>
        P (CreatePullRequest gh (flag_o fl) ''devops''
          \<lparr>Title = main_title (flag_r fl) (flag_e fl) newId,
           Body = main_description (flag_o fl) (flag_r fl) oldId newId,
           Head = main_branchName (flag_r fl) (flag_e fl) newId, Base = flag_m fl\<rparr>)"
  shows "extends_with P w (snd (main x fl w))"
proof -
  have new: "extends_with P v (snd (main_newCommitHash x gh fl v))" for v gh
    using look extractNewCommitHash_extends[of P gh "flag_o fl" "flag_r fl" "flag_m fl" v x]
    by (simp add: main_newCommitHash_def extends_refl)
  have newv: "flag_c fl \<noteq> [] \<longrightarrow> newId = flag_c fl" if "main_newCommitHash x gh fl v = (Ok newId, v')" for v v' gh newId
    using that by (auto simp: main_newCommitHash_def)
  show ?thesis
  proof (cases "(flag_e fl \<noteq> ''dev'' \<and> flag_e fl \<noteq> ''prod'') \<or> flag_o fl = [] \<or> flag_r fl = []")
    case True
    then have "snd (main x fl w) = w" by (auto simp: main_def)
    then show ?thesis by (simp add: extends_refl)
  next
    case False
    then have c: "(flag_e fl \<noteq> ''dev'' \<and> flag_e fl \<noteq> ''prod'') = False" "(flag_o fl = []) = False"
      "(flag_r fl = []) = False" by auto
    show ?thesis
      unfolding main_def Let_def
      apply (simp only: c if_False)
      apply (rule orFatal_extends, rule runCommand_extends, rule exec)
      apply (rule orFatal_extends, simp add: extends_refl)
      apply (rule orFatal_extends, rule new)
      apply (rule orFatal_extends, simp add: extractOldCommitHash_world extends_refl)
      apply (rule orFatal_extends, rule createOrCheckoutBranch_extends, rule exec)
      apply (rule orFatal_extends, rule extends_same_calls, rule updateYamlFile_calls)
      apply (rule orFatal_extends, rule gitCommit_extends, rule exec)
      apply (rule orFatal_extends, rule gitPush_extends, rule exec)
      apply (rule orFatal_extends, rule createPullRequest_extends, rule pr, erule newv)
      apply (simp add: extends_refl)
      done
  qed
qed

subsection \<open>The end-to-end scenario, evaluated\<close>

lemma run_gh: "runCommand ext_success ''gh'' args w = (Ok gh_auth_status, w\<lparr>calls := calls w @ [Exec ''gh'' args]\<rparr>)"
  by (simp add: runCommand_def ext_success_def)

lemma run_rev_parse:
  "runCommand ext_success ''git'' (''rev-parse'' # args) w =
     (Err (Errorf ''run: %w'' [] (Some (ExternalError ''exit status 128''))),
      w\<lparr>calls := calls w @ [Exec ''git'' (''rev-parse'' # args)]\<rparr>)"
  by (simp add: runCommand_def ext_success_def)

lemma run_git:
  "a \<noteq> ''rev-parse'' \<Longrightarrow>
   runCommand ext_success ''git'' (a # args) w = (Ok [], w\<lparr>calls := calls w @ [Exec ''git'' (a # args)]\<rparr>)"
  by (simp add: runCommand_def ext_success_def)

lemma token_e2e: "token_loop gh_auth_status (strings_Split gh_auth_status CHR 0x0A) = Ok ''gho_token''"
  by (simp add: gh_auth_status_def strings_Contains_def strings_Fields_def strings_Split_def asciiSpace_def Let_def)

lemma branch_e2e:
  "createOrCheckoutBranch ext_success b w =
    (Ok (), w\<lparr>calls := calls w @ [Exec ''git'' [''rev-parse'', ''--verify'', b], Exec ''git'' [''checkout'', ''-b'', b]]\<rparr>)"
  by (simp add: createOrCheckoutBranch_def run_rev_parse run_git)

lemma commit_e2e:
  "gitCommit ext_success f ''dev'' r h w =
    (Ok (), w\<lparr>calls := calls w @ [Exec ''git'' [''add'', f], Exec ''git'' [''commit'', ''-m'', r @ '' DEV '' @ h]]\<rparr>)"
  by (simp add: gitCommit_def run_git strings_ToUpper_dev)

lemma push_e2e:
  "gitPush ext_success b w = (Ok (), w\<lparr>calls := calls w @ [Exec ''git'' [''push'', ''origin'', b]]\<rparr>)"
  by (simp add: gitPush_def run_git)

lemma pr_e2e:
  "createPullRequest ext_success gh owner branch master title description w =
    (Ok ''https://github.com/acme/devops/pull/7'',
     w\<lparr>calls := calls w @ [CreatePullRequest gh owner ''devops''
        \<lparr>Title = title, Body = description, Head = branch, Base = master\<rparr>]\<rparr>)"
  by (simp add: createPullRequest_def ext_success_def PullRequest_GetHTMLURL_def)

lemma old_e2e:
  "files w ''values.yaml'' = Some manifest_e2e \<Longrightarrow>
   extractOldCommitHash ''values.yaml'' ''master'' ''image'' w = (Ok ''11111111'', w)"
  by (simp add: extractOldCommitHash_def os_Open_def manifest_e2e_def eval_defs)

lemma patch_e2e:
  \<open>files w ''values.yaml'' = Some manifest_e2e \<Longrightarrow> readonly w = {} \<Longrightarrow>
   updateYamlFile ''values.yaml'' ''master'' ''image'' ''11111111'' ''22222222'' w =
     (Ok (), w\<lparr>files := (files w)(''values.yaml'' \<mapsto> ''image: "master_22222222"\<newline>'')\<rparr>)\<close>
  by (simp add: updateYamlFile_def os_ReadFile_def os_WriteFile_def manifest_e2e_def strings_Replace_1_def)

lemma main_e2e:
  \<open>main ext_success flags_e2e (world_of manifest_e2e) =
    (Printed ''Pull request created successfully\<newline>URL: https://github.com/acme/devops/pull/7\<newline>Title: svc DEV 22222222\<newline>Description:\<newline>https://github.com/acme/svc/compare/11111111...22222222\<newline>'',
     \<lparr>files = [''values.yaml'' \<mapsto> ''image: "master_22222222"\<newline>''], readonly = {},
      calls = [Exec ''gh'' [''auth'', ''status'', ''--show-token''],
               Exec ''git'' [''rev-parse'', ''--verify'', ''svc_dev_22222222''],
               Exec ''git'' [''checkout'', ''-b'', ''svc_dev_22222222''],
               Exec ''git'' [''add'', ''values.yaml''],
               Exec ''git'' [''commit'', ''-m'', ''svc DEV 22222222''],
               Exec ''git'' [''push'', ''origin'', ''svc_dev_22222222''],
               CreatePullRequest ''gho_token'' ''acme'' ''devops''
                 \<lparr>Title = ''svc DEV 22222222'',
                  Body = ''https://github.com/acme/svc/compare/11111111...22222222'',
                  Head = ''svc_dev_22222222'', Base = ''master''\<rparr>]\<rparr>)\<close>
  by (simp add: main_def flags_e2e_def world_of_def orFatal_def run_gh token_e2e
      main_newCommitHash_def old_e2e patch_e2e branch_e2e commit_e2e push_e2e pr_e2e
      main_branchName_def main_title_def main_description_def strings_ToUpper_dev Let_def)

section \<open>The claims\<close>

subsection \<open>Old-identifier extraction\<close>

text \<open>The tag is looked for as a substring of the line, so a line that belongs to the tag
  \<open>my_image\<close> is also a line for the tag \<open>image\<close>: with the \<open>my_image\<close> line first,
  extraction for \<open>image\<close> returns the identifier of the \<open>my_image\<close> line.\<close>

theorem extractOldCommitHash_scoping_counterexample:
  \<open>fst (extractOldCommitHash ''values.yaml'' ''master'' ''image''
      \<lparr>files = [''values.yaml'' \<mapsto> manifest_two_tags], readonly = {}, calls = []\<rparr>) = Ok ''bbbbbbbb''\<close>
  by (simp add: extractOldCommitHash_def os_Open_def Scanner_lines_two_tags strings_Contains_def
      match_here_def is_word_def Let_def)

text \<open>C1 (as amended): in a manifest with a line of another tag, extraction for \<open>tagA\<close>
  never matches that line when \<open>tagA\<close> does not occur in it as a substring: the result is
  the one for the manifest without the line.  (The hypothesis on \<open>master\<close> is the range in
  which the model of the pattern is the pattern of the code.)\<close>

theorem extractOldCommitHash_skips_other_tag:
  assumes "regexp_literal master"
    and "files w filePath = Some content"
    and "Scanner_lines content = pre @ lineB # post"
    and "\<not> strings_Contains lineB tagA"
    and "Scanner_lines content' = pre @ post"
  shows "fst (extractOldCommitHash filePath master tagA w) =
         fst (extractOldCommitHash filePath master tagA (w\<lparr>files := (files w)(filePath \<mapsto> content')\<rparr>))"
  using assms(2,3,5) scan_loop_drop_line[OF assms(4), of master pre post]
  by (simp add: extractOldCommitHash_lines)

theorem extractOldCommitHash_skips_other_tag_witness:
  \<open>regexp_literal ''master'' \<and>
   files (world_of manifest_web_api) ''values.yaml'' = Some manifest_web_api \<and>
   Scanner_lines manifest_web_api = [] @ ''web: "master_bbbbbbbb"'' # [''api: "master_aaaaaaaa"''] \<and>
   \<not> strings_Contains ''web: "master_bbbbbbbb"'' ''api'' \<and>
   Scanner_lines manifest_api = [] @ [''api: "master_aaaaaaaa"''] \<and>
   fst (extractOldCommitHash ''values.yaml'' ''master'' ''api'' (world_of manifest_web_api)) =
   fst (extractOldCommitHash ''values.yaml'' ''master'' ''api''
      ((world_of manifest_web_api)\<lparr>files := (files (world_of manifest_web_api))(''values.yaml'' \<mapsto> manifest_api)\<rparr>))\<close>
proof -
  have h1: "regexp_literal ''master''" by (simp add: eval_defs)
  have h2: "files (world_of manifest_web_api) ''values.yaml'' = Some manifest_web_api"
    by (simp add: world_of_def)
  have h3: \<open>Scanner_lines manifest_web_api = [] @ ''web: "master_bbbbbbbb"'' # [''api: "master_aaaaaaaa"'']\<close>
    by (simp add: manifest_web_api_def eval_defs)
  have h4: \<open>\<not> strings_Contains ''web: "master_bbbbbbbb"'' ''api''\<close> by (simp add: eval_defs)
  have h5: \<open>Scanner_lines manifest_api = [] @ [''api: "master_aaaaaaaa"'']\<close>
    by (simp add: manifest_api_def eval_defs)
  note c = extractOldCommitHash_skips_other_tag[OF h1 h2 h3 h4 h5]
  show ?thesis by (intro conjI h1 h2 h3 h4 h5 c)
qed

text \<open>C4: with the lines taken in the scanner's order, the lines before the first line
  that contains the tag and matches the pattern are passed over (whether they lack the tag
  or contain it without a match), and extraction returns the capture of that line: eight
  word characters that follow \<open>master_\<close> in it.\<close>

theorem extractOldCommitHash_first_match:
  assumes "regexp_literal master"
    and "files w filePath = Some content"
    and "Scanner_lines content = pre @ line # post"
    and "\<forall>l\<in>set pre. \<not> strings_Contains l yamlTag \<or> FindStringSubmatch master l = []"
    and "strings_Contains line yamlTag"
    and "FindStringSubmatch master line = [whole, cap]"
  shows "extractOldCommitHash filePath master yamlTag w = (Ok cap, w) \<and>
         length cap = 8 \<and> list_all is_word cap \<and> sublist (master @ ''_'' @ cap) line"
proof -
  have "scan_loop master yamlTag (pre @ line # post) = scan_loop master yamlTag (line # post)"
    using assms(4) by (rule scan_loop_skip)
  also have "\<dots> = Ok cap"
    using assms(5,6) by simp
  finally have r: "extractOldCommitHash filePath master yamlTag w = (Ok cap, w)"
    using assms(2,3) by (simp add: extractOldCommitHash_lines)
  from FindStringSubmatch_shape[of master line] assms(6)
  obtain a cap' b where s: "line = a @ master @ ''_'' @ cap' @ b" "length cap' = 8"
    "list_all is_word cap'" "[whole, cap] = [master @ ''_'' @ cap', cap']"
    by auto
  then have "cap' = cap" by simp
  with s have "length cap = 8" "list_all is_word cap" "line = a @ (master @ ''_'' @ cap) @ b"
    by simp_all
  then have "length cap = 8 \<and> list_all is_word cap \<and> sublist (master @ ''_'' @ cap) line"
    unfolding sublist_def by blast
  with r show ?thesis by simp
qed

theorem extractOldCommitHash_first_match_witness:
  \<open>regexp_literal ''master'' \<and>
   files (world_of manifest_pins) ''values.yaml'' = Some manifest_pins \<and>
   Scanner_lines manifest_pins =
     [''# pins'', ''image: latest''] @ ''image: "master_11111111"'' # [''image: "master_99999999"''] \<and>
   \<not> strings_Contains ''# pins'' ''image'' \<and>
   strings_Contains ''image: latest'' ''image'' \<and>
   FindStringSubmatch ''master'' ''image: latest'' = [] \<and>
   strings_Contains ''image: "master_11111111"'' ''image'' \<and>
   FindStringSubmatch ''master'' ''image: "master_11111111"'' = [''master_11111111'', ''11111111''] \<and>
   extractOldCommitHash ''values.yaml'' ''master'' ''image'' (world_of manifest_pins) =
     (Ok ''11111111'', world_of manifest_pins)\<close>
proof -
  have h1: "regexp_literal ''master''" by (simp add: eval_defs)
  have h2: "files (world_of manifest_pins) ''values.yaml'' = Some manifest_pins"
    by (simp add: world_of_def)
  have h3: \<open>Scanner_lines manifest_pins =
     [''# pins'', ''image: latest''] @ ''image: "master_11111111"'' # [''image: "master_99999999"'']\<close>
    by (simp add: manifest_pins_def eval_defs)
  have a1: \<open>\<not> strings_Contains ''# pins'' ''image''\<close> by (simp add: eval_defs)
  have a2: \<open>strings_Contains ''image: latest'' ''image''\<close> by (simp add: eval_defs)
  have a3: \<open>FindStringSubmatch ''master'' ''image: latest'' = []\<close> by (simp add: eval_defs)
  have h4: \<open>\<forall>l\<in>set [''# pins'', ''image: latest''].
      \<not> strings_Contains l ''image'' \<or> FindStringSubmatch ''master'' l = []\<close>
    using a1 a3 by simp
  have h5: \<open>strings_Contains ''image: "master_11111111"'' ''image''\<close> by (simp add: eval_defs)
  have h6: \<open>FindStringSubmatch ''master'' ''image: "master_11111111"'' = [''master_11111111'', ''11111111'']\<close>
    by (simp add: eval_defs)
  note c = extractOldCommitHash_first_match[OF h1 h2 h3 h4 h5 h6, THEN conjunct1]
  show ?thesis by (intro conjI h1 h2 h3 a1 a2 a3 h5 h6 c)
qed

text \<open>C6: when no scanned line both contains the tag and matches the pattern, extraction
  returns the error \<open>commit hash not found\<close>, and the world it returns is the world
  it was given: no file has changed and no call has left the process.\<close>

theorem extractOldCommitHash_not_found:
  assumes "regexp_literal master"
    and "files w filePath = Some content"
    and "\<forall>l\<in>set (Scanner_lines content). \<not> strings_Contains l yamlTag \<or> FindStringSubmatch master l = []"
  shows "extractOldCommitHash filePath master yamlTag w =
           (Err (Errorf ''commit hash not found'' [] None), w)"
proof -
  have "scan_loop master yamlTag (Scanner_lines content @ []) = scan_loop master yamlTag []"
    using assms(3) by (rule scan_loop_skip)
  then show ?thesis using assms(2) by (simp add: extractOldCommitHash_lines)
qed

theorem extractOldCommitHash_not_found_witness:
  \<open>regexp_literal ''master'' \<and>
   files (world_of manifest_no_match) ''values.yaml'' = Some manifest_no_match \<and>
   Scanner_lines manifest_no_match = [''# pins'', ''image: latest'', ''sidecar: "master_11111111"''] \<and>
   \<not> strings_Contains ''# pins'' ''image'' \<and>
   FindStringSubmatch ''master'' ''image: latest'' = [] \<and>
   \<not> strings_Contains ''sidecar: "master_11111111"'' ''image'' \<and>
   extractOldCommitHash ''values.yaml'' ''master'' ''image'' (world_of manifest_no_match) =
     (Err (Errorf ''commit hash not found'' [] None), world_of manifest_no_match)\<close>
proof -
  have h1: "regexp_literal ''master''" by (simp add: eval_defs)
  have h2: "files (world_of manifest_no_match) ''values.yaml'' = Some manifest_no_match"
    by (simp add: world_of_def)
  have l: \<open>Scanner_lines manifest_no_match = [''# pins'', ''image: latest'', ''sidecar: "master_11111111"'']\<close>
    by (simp add: manifest_no_match_def eval_defs)
  have a1: \<open>\<not> strings_Contains ''# pins'' ''image''\<close> by (simp add: eval_defs)
  have a2: \<open>FindStringSubmatch ''master'' ''image: latest'' = []\<close> by (simp add: eval_defs)
  have a3: \<open>\<not> strings_Contains ''sidecar: "master_11111111"'' ''image''\<close> by (simp add: eval_defs)
  have h3: \<open>\<forall>l\<in>set (Scanner_lines manifest_no_match).
      \<not> strings_Contains l ''image'' \<or> FindStringSubmatch ''master'' l = []\<close>
    unfolding l using a1 a2 a3 by simp
  note c = extractOldCommitHash_not_found[OF h1 h2 h3]
  show ?thesis by (intro conjI h1 h2 l a1 a2 a3 c)
qed

text \<open>C10: when the first line that contains the tag holds, at its first \<open>master_\<close>, more
  than eight word characters, extraction succeeds and returns the first eight of them;
  the longer token is not rejected.\<close>

theorem extractOldCommitHash_long_token:
  assumes "regexp_literal master"
    and "files w filePath = Some content"
    and "Scanner_lines content = pre @ line # post"
    and "\<forall>l\<in>set pre. \<not> strings_Contains l yamlTag \<or> FindStringSubmatch master l = []"
    and "strings_Contains line yamlTag"
    and "line = a @ master @ ''_'' @ ws @ b"
    and "strings_Index line (master @ ''_'') = Some (length a)"
    and "8 < length ws" and "list_all is_word ws"
  shows "extractOldCommitHash filePath master yamlTag w = (Ok (take 8 ws), w)"
proof -
  have m: "FindStringSubmatch master line = [master @ ''_'' @ take 8 ws, take 8 ws]"
    using assms(6,7) _ assms(9) by (rule FindStringSubmatch_first_token) (use assms(8) in simp)
  have "scan_loop master yamlTag (pre @ line # post) = scan_loop master yamlTag (line # post)"
    using assms(4) by (rule scan_loop_skip)
  also have "\<dots> = Ok (take 8 ws)"
    using assms(5) m by simp
  finally show ?thesis
    using assms(2,3) by (simp add: extractOldCommitHash_lines)
qed

theorem extractOldCommitHash_long_token_witness:
  \<open>regexp_literal ''master'' \<and>
   files (world_of manifest_long_token) ''values.yaml'' = Some manifest_long_token \<and>
   Scanner_lines manifest_long_token = [] @ ''image: "master_123456789abc"'' # [] \<and>
   strings_Contains ''image: "master_123456789abc"'' ''image'' \<and>
   ''image: "master_123456789abc"'' = ''image: "'' @ ''master'' @ ''_'' @ ''123456789abc'' @ ''"'' \<and>
   strings_Index ''image: "master_123456789abc"'' (''master'' @ ''_'') = Some (length ''image: "'') \<and>
   8 < length ''123456789abc'' \<and> list_all is_word ''123456789abc'' \<and>
   extractOldCommitHash ''values.yaml'' ''master'' ''image'' (world_of manifest_long_token) =
     (Ok ''12345678'', world_of manifest_long_token)\<close>
proof -
  have h1: "regexp_literal ''master''" by (simp add: eval_defs)
  have h2: "files (world_of manifest_long_token) ''values.yaml'' = Some manifest_long_token"
    by (simp add: world_of_def)
  have h3: \<open>Scanner_lines manifest_long_token = [] @ ''image: "master_123456789abc"'' # []\<close>
    by (simp add: manifest_long_token_def eval_defs)
  have h4: \<open>\<forall>l\<in>set []. \<not> strings_Contains l ''image'' \<or> FindStringSubmatch ''master'' l = []\<close>
    by simp
  have h5: \<open>strings_Contains ''image: "master_123456789abc"'' ''image''\<close> by (simp add: eval_defs)
  have h6: \<open>''image: "master_123456789abc"'' = ''image: "'' @ ''master'' @ ''_'' @ ''123456789abc'' @ ''"''\<close>
    by simp
  have h7: \<open>strings_Index ''image: "master_123456789abc"'' (''master'' @ ''_'') = Some (length ''image: "'')\<close>
    by simp
  have h8: "8 < length ''123456789abc''" by simp
  have h9: "list_all is_word ''123456789abc''" by (simp add: eval_defs)
  have t: "take 8 ''123456789abc'' = ''12345678''" by simp
  have c: \<open>extractOldCommitHash ''values.yaml'' ''master'' ''image'' (world_of manifest_long_token) =
     (Ok ''12345678'', world_of manifest_long_token)\<close>
    using extractOldCommitHash_long_token[OF h1 h2 h3 h4 h5 h6 h7 h8 h9] unfolding t .
  show ?thesis by (intro conjI h1 h2 h3 h5 h6 h7 h8 h9 c)
qed

subsection \<open>The manifest patch\<close>

text \<open>C2: on a manifest that can be read and written, \<open>updateYamlFile\<close> writes the
  content back unchanged when the target \<open>tag: "branch_old"\<close> does not occur in it, and
  otherwise replaces the first occurrence of the target (the one with the shortest text
  before it) by \<open>tag: "branch_new"\<close>, keeping the text before and after it; one of the two
  cases always applies, and no other file changes.\<close>

theorem updateYamlFile_single_replacement:
  assumes "files w filePath = Some content" and "filePath \<notin> readonly w"
  shows \<open>(\<not> sublist (yamlTag @ '': "'' @ master @ ''_'' @ old @ ''"'') content \<longrightarrow>
            updateYamlFile filePath master yamlTag old new w =
              (Ok (), w\<lparr>files := (files w)(filePath \<mapsto> content)\<rparr>)) \<and>
         (\<forall>pre post.
            content = pre @ (yamlTag @ '': "'' @ master @ ''_'' @ old @ ''"'') @ post \<and>
            (\<forall>pre' post'. content = pre' @ (yamlTag @ '': "'' @ master @ ''_'' @ old @ ''"'') @ post'
               \<longrightarrow> length pre \<le> length pre') \<longrightarrow>
            updateYamlFile filePath master yamlTag old new w =
              (Ok (), w\<lparr>files := (files w)(filePath \<mapsto>
                 pre @ (yamlTag @ '': "'' @ master @ ''_'' @ new @ ''"'') @ post)\<rparr>)) \<and>
         (sublist (yamlTag @ '': "'' @ master @ ''_'' @ old @ ''"'') content \<longrightarrow>
            (\<exists>pre post.
               content = pre @ (yamlTag @ '': "'' @ master @ ''_'' @ old @ ''"'') @ post \<and>
               (\<forall>pre' post'. content = pre' @ (yamlTag @ '': "'' @ master @ ''_'' @ old @ ''"'') @ post'
                  \<longrightarrow> length pre \<le> length pre')))\<close>
proof (intro conjI impI allI)
  assume \<open>\<not> sublist (yamlTag @ '': "'' @ master @ ''_'' @ old @ ''"'') content\<close>
  then show \<open>updateYamlFile filePath master yamlTag old new w =
              (Ok (), w\<lparr>files := (files w)(filePath \<mapsto> content)\<rparr>)\<close>
    by (simp add: updateYamlFile_output[OF assms] strings_Replace_1_absent)
next
  fix pre post
  assume a: \<open>content = pre @ (yamlTag @ '': "'' @ master @ ''_'' @ old @ ''"'') @ post \<and>
            (\<forall>pre' post'. content = pre' @ (yamlTag @ '': "'' @ master @ ''_'' @ old @ ''"'') @ post'
               \<longrightarrow> length pre \<le> length pre')\<close>
  have \<open>strings_Replace_1 content (yamlTag @ '': "'' @ master @ ''_'' @ old @ ''"'')
          (yamlTag @ '': "'' @ master @ ''_'' @ new @ ''"'') =
        pre @ (yamlTag @ '': "'' @ master @ ''_'' @ new @ ''"'') @ post\<close>
    by (rule strings_Replace_1_first) (use a in blast)+
  then show \<open>updateYamlFile filePath master yamlTag old new w =
              (Ok (), w\<lparr>files := (files w)(filePath \<mapsto>
                 pre @ (yamlTag @ '': "'' @ master @ ''_'' @ new @ ''"'') @ post)\<rparr>)\<close>
    by (simp only: updateYamlFile_output[OF assms])
next
  assume \<open>sublist (yamlTag @ '': "'' @ master @ ''_'' @ old @ ''"'') content\<close>
  then show \<open>\<exists>pre post.
               content = pre @ (yamlTag @ '': "'' @ master @ ''_'' @ old @ ''"'') @ post \<and>
               (\<forall>pre' post'. content = pre' @ (yamlTag @ '': "'' @ master @ ''_'' @ old @ ''"'') @ post'
                  \<longrightarrow> length pre \<le> length pre')\<close>
    by (rule sublist_has_first)
qed

theorem updateYamlFile_single_replacement_witness:
  \<open>files world_same_pin ''values.yaml'' = Some manifest_same_pin \<and>
   ''values.yaml'' \<notin> readonly world_same_pin \<and>
   manifest_same_pin = [] @ ''tag: "master_aaaaaaaa"'' @ ''\<newline>other_tag: "master_aaaaaaaa"\<newline>'' \<and>
   updateYamlFile ''values.yaml'' ''master'' ''tag'' ''aaaaaaaa'' ''bbbbbbbb'' world_same_pin =
     (Ok (), world_same_pin\<lparr>files := (files world_same_pin)(''values.yaml'' \<mapsto>
        ''tag: "master_bbbbbbbb"\<newline>other_tag: "master_aaaaaaaa"\<newline>'')\<rparr>) \<and>
   \<not> sublist ''tag: "master_cccccccc"'' manifest_same_pin \<and>
   updateYamlFile ''values.yaml'' ''master'' ''tag'' ''cccccccc'' ''bbbbbbbb'' world_same_pin =
     (Ok (), world_same_pin\<lparr>files := (files world_same_pin)(''values.yaml'' \<mapsto> manifest_same_pin)\<rparr>)\<close>
proof -
  have h1: "files world_same_pin ''values.yaml'' = Some manifest_same_pin"
    by (simp add: world_same_pin_def)
  have h2: "''values.yaml'' \<notin> readonly world_same_pin" by (simp add: world_same_pin_def)
  have h3: \<open>manifest_same_pin = [] @ ''tag: "master_aaaaaaaa"'' @ ''\<newline>other_tag: "master_aaaaaaaa"\<newline>''\<close>
    by (simp add: manifest_same_pin_def)
  have h3': \<open>manifest_same_pin =
      [] @ (''tag'' @ '': "'' @ ''master'' @ ''_'' @ ''aaaaaaaa'' @ ''"'') @ ''\<newline>other_tag: "master_aaaaaaaa"\<newline>'' \<and>
      (\<forall>pre' post'. manifest_same_pin = pre' @ (''tag'' @ '': "'' @ ''master'' @ ''_'' @ ''aaaaaaaa'' @ ''"'') @ post'
         \<longrightarrow> length ([] :: string) \<le> length pre')\<close>
    by (simp add: manifest_same_pin_def)
  have e: \<open>[] @ (''tag'' @ '': "'' @ ''master'' @ ''_'' @ ''bbbbbbbb'' @ ''"'') @ ''\<newline>other_tag: "master_aaaaaaaa"\<newline>'' =
      ''tag: "master_bbbbbbbb"\<newline>other_tag: "master_aaaaaaaa"\<newline>''\<close>
    by simp
  have c1: \<open>updateYamlFile ''values.yaml'' ''master'' ''tag'' ''aaaaaaaa'' ''bbbbbbbb'' world_same_pin =
     (Ok (), world_same_pin\<lparr>files := (files world_same_pin)(''values.yaml'' \<mapsto>
        ''tag: "master_bbbbbbbb"\<newline>other_tag: "master_aaaaaaaa"\<newline>'')\<rparr>)\<close>
    using updateYamlFile_single_replacement[OF h1 h2, of "''tag''" "''master''" "''aaaaaaaa''" "''bbbbbbbb''",
        THEN conjunct2, THEN conjunct1, THEN spec, THEN spec, THEN mp, OF h3']
    unfolding e .
  have n: \<open>strings_Index manifest_same_pin ''tag: "master_cccccccc"'' = None\<close>
    by (simp add: manifest_same_pin_def)
  have h4: \<open>\<not> sublist ''tag: "master_cccccccc"'' manifest_same_pin\<close>
    using n by (simp add: strings_Index_None_iff)
  have h4': \<open>\<not> sublist (''tag'' @ '': "'' @ ''master'' @ ''_'' @ ''cccccccc'' @ ''"'') manifest_same_pin\<close>
    using h4 by simp
  note c2 = updateYamlFile_single_replacement[OF h1 h2, of "''tag''" "''master''" "''cccccccc''" "''bbbbbbbb''",
        THEN conjunct1, THEN mp, OF h4']
  show ?thesis by (intro conjI h1 h2 h3 c1 h4 c2)
qed

text \<open>The patch replaces one occurrence per application.  In a manifest that pins two
  tags to the same identifier, where the target also occurs inside the line of
  \<open>other_tag\<close>, the first application rewrites the first line and the second application
  rewrites the second: it is not a no-op.\<close>

theorem updateYamlFile_second_patch_counterexample:
  \<open>strings_Contains manifest_same_pin ''tag: "master_aaaaaaaa"'' \<and>
   files (snd (updateYamlFile ''values.yaml'' ''master'' ''tag'' ''aaaaaaaa'' ''bbbbbbbb'' world_same_pin))
     ''values.yaml'' = Some ''tag: "master_bbbbbbbb"\<newline>other_tag: "master_aaaaaaaa"\<newline>'' \<and>
   files (snd (updateYamlFile ''values.yaml'' ''master'' ''tag'' ''aaaaaaaa'' ''bbbbbbbb''
       (snd (updateYamlFile ''values.yaml'' ''master'' ''tag'' ''aaaaaaaa'' ''bbbbbbbb'' world_same_pin))))
     ''values.yaml'' = Some ''tag: "master_bbbbbbbb"\<newline>other_tag: "master_bbbbbbbb"\<newline>''\<close>
proof -
  have a: \<open>strings_Contains manifest_same_pin ''tag: "master_aaaaaaaa"''\<close>
    by (simp add: manifest_same_pin_def strings_Contains_def)
  have b: \<open>snd (updateYamlFile ''values.yaml'' ''master'' ''tag'' ''aaaaaaaa'' ''bbbbbbbb'' world_same_pin) =
      world_same_pin\<lparr>files := [''values.yaml'' \<mapsto> ''tag: "master_bbbbbbbb"\<newline>other_tag: "master_aaaaaaaa"\<newline>'']\<rparr>\<close>
    by (simp add: updateYamlFile_def os_ReadFile_def os_WriteFile_def world_same_pin_def
        manifest_same_pin_def strings_Replace_1_def)
  have c: \<open>files (snd (updateYamlFile ''values.yaml'' ''master'' ''tag'' ''aaaaaaaa'' ''bbbbbbbb''
       (world_same_pin\<lparr>files := [''values.yaml'' \<mapsto> ''tag: "master_bbbbbbbb"\<newline>other_tag: "master_aaaaaaaa"\<newline>'']\<rparr>)))
     ''values.yaml'' = Some ''tag: "master_bbbbbbbb"\<newline>other_tag: "master_bbbbbbbb"\<newline>''\<close>
    by (simp add: updateYamlFile_def os_ReadFile_def os_WriteFile_def world_same_pin_def
        strings_Replace_1_def)
  from a b c show ?thesis by simp
qed

text \<open>C3 (as amended): for every manifest content in which \<open>tag: "master_aaaaaaaa"\<close> occurs
  exactly once, the patch for the transition from \<open>aaaaaaaa\<close> to \<open>bbbbbbbb\<close> puts
  \<open>tag: "master_bbbbbbbb"\<close> in its place, and the same patch applied to the result leaves
  the world as it is.\<close>

theorem updateYamlFile_idempotent_when_unique:
  assumes "files w filePath = Some content" and "filePath \<notin> readonly w"
    and \<open>content = pre @ ''tag: "master_aaaaaaaa"'' @ post\<close>
    and \<open>\<forall>pre' post'. content = pre' @ ''tag: "master_aaaaaaaa"'' @ post' \<longrightarrow> pre' = pre\<close>
  shows \<open>updateYamlFile filePath ''master'' ''tag'' ''aaaaaaaa'' ''bbbbbbbb'' w =
           (Ok (), w\<lparr>files := (files w)(filePath \<mapsto> pre @ ''tag: "master_bbbbbbbb"'' @ post)\<rparr>) \<and>
         updateYamlFile filePath ''master'' ''tag'' ''aaaaaaaa'' ''bbbbbbbb''
             (w\<lparr>files := (files w)(filePath \<mapsto> pre @ ''tag: "master_bbbbbbbb"'' @ post)\<rparr>) =
           (Ok (), w\<lparr>files := (files w)(filePath \<mapsto> pre @ ''tag: "master_bbbbbbbb"'' @ post)\<rparr>)\<close>
proof -
  let ?w1 = \<open>w\<lparr>files := (files w)(filePath \<mapsto> pre @ ''tag: "master_bbbbbbbb"'' @ post)\<rparr>\<close>
  have first: \<open>strings_Replace_1 content ''tag: "master_aaaaaaaa"'' ''tag: "master_bbbbbbbb"'' =
      pre @ ''tag: "master_bbbbbbbb"'' @ post\<close>
  proof (rule strings_Replace_1_first)
    show \<open>content = pre @ ''tag: "master_aaaaaaaa"'' @ post\<close> by (rule assms(3))
  next
    fix pre' post'
    assume \<open>content = pre' @ ''tag: "master_aaaaaaaa"'' @ post'\<close>
    with assms(4) have "pre' = pre" by blast
    then show "length pre \<le> length pre'" by simp
  qed
  have one: \<open>updateYamlFile filePath ''master'' ''tag'' ''aaaaaaaa'' ''bbbbbbbb'' w = (Ok (), ?w1)\<close>
    using updateYamlFile_output[OF assms(1,2), of "''master''" "''tag''" "''aaaaaaaa''" "''bbbbbbbb''"] first
    by simp
  have \<open>\<not> sublist (''tag: "master_'' @ ''aaaaaaaa'' @ ''"'')
           (pre @ (''tag: "master_'' @ ''bbbbbbbb'' @ ''"'') @ post)\<close>
  proof (rule patched_once_has_no_target)
    fix pre' post'
    assume \<open>pre @ (''tag: "master_'' @ ''aaaaaaaa'' @ ''"'') @ post =
            pre' @ (''tag: "master_'' @ ''aaaaaaaa'' @ ''"'') @ post'\<close>
    with assms(3,4) show "pre' = pre" by simp
  qed simp_all
  then have absent: \<open>\<not> sublist ''tag: "master_aaaaaaaa"'' (pre @ ''tag: "master_bbbbbbbb"'' @ post)\<close>
    by simp
  have f1: "files ?w1 filePath = Some (pre @ ''tag: \"master_bbbbbbbb\"'' @ post)" by simp
  have r1: "filePath \<notin> readonly ?w1" using assms(2) by simp
  have two: \<open>updateYamlFile filePath ''master'' ''tag'' ''aaaaaaaa'' ''bbbbbbbb'' ?w1 = (Ok (), ?w1)\<close>
    using updateYamlFile_output[OF f1 r1, of "''master''" "''tag''" "''aaaaaaaa''" "''bbbbbbbb''"]
      strings_Replace_1_absent[OF absent, of \<open>''tag: "master_bbbbbbbb"''\<close>]
    by simp
  from one two show ?thesis by simp
qed

theorem updateYamlFile_idempotent_when_unique_witness:
  \<open>files (world_of manifest_one_pin) ''values.yaml'' = Some manifest_one_pin \<and>
   ''values.yaml'' \<notin> readonly (world_of manifest_one_pin) \<and>
   manifest_one_pin = [] @ ''tag: "master_aaaaaaaa"'' @ ''\<newline>'' \<and>
   updateYamlFile ''values.yaml'' ''master'' ''tag'' ''aaaaaaaa'' ''bbbbbbbb'' (world_of manifest_one_pin) =
     (Ok (), world_of ''tag: "master_bbbbbbbb"\<newline>'') \<and>
   updateYamlFile ''values.yaml'' ''master'' ''tag'' ''aaaaaaaa'' ''bbbbbbbb'' (world_of ''tag: "master_bbbbbbbb"\<newline>'') =
     (Ok (), world_of ''tag: "master_bbbbbbbb"\<newline>'')\<close>
proof -
  have h1: "files (world_of manifest_one_pin) ''values.yaml'' = Some manifest_one_pin"
    by (simp add: world_of_def)
  have h2: "''values.yaml'' \<notin> readonly (world_of manifest_one_pin)" by (simp add: world_of_def)
  have h3: \<open>manifest_one_pin = [] @ ''tag: "master_aaaaaaaa"'' @ ''\<newline>''\<close>
    by (simp add: manifest_one_pin_def)
  have e: \<open>(world_of manifest_one_pin)\<lparr>files := (files (world_of manifest_one_pin))
      (''values.yaml'' \<mapsto> [] @ ''tag: "master_bbbbbbbb"'' @ ''\<newline>'')\<rparr> = world_of ''tag: "master_bbbbbbbb"\<newline>''\<close>
    by (simp add: world_of_def)
  note c = updateYamlFile_idempotent_when_unique[OF h1 h2 h3 one_pin_unique, unfolded e]
  show ?thesis by (intro conjI h1 h2 h3 c[THEN conjunct1] c[THEN conjunct2])
qed

subsection \<open>New-identifier resolution\<close>

text \<open>C5: the lookup answers without an error and without an object (a reference whose
  \<open>Object\<close> is nil).  The nil-safe getters give the empty identifier, and the slice
  expression \<open>[:8]\<close> on it panics: the function returns neither an identifier nor an error.\<close>

theorem extractNewCommitHash_no_object_panics:
  "fst (extractNewCommitHash ext_no_object ''gho_token'' ''master'' ''acme'' ''svc''
         \<lparr>files = Map.empty, readonly = {}, calls = []\<rparr>) = Panic ''slice bounds out of range''"
  by (simp add: extractNewCommitHash_def ext_no_object_def Reference_GetObject_def
      GitObject_GetSHA_def slice_to_def)

text \<open>C8: a non-empty identifier given with \<open>-c\<close> is the new identifier as it stands,
  whatever its form, and resolving it leaves the world as it was.  In the whole run of
  \<open>main\<close> no reference lookup is then among the calls made, and a pull request, if the
  run gets that far, carries the identifier of the flag in its head branch, its title and
  its comparison address.\<close>

theorem main_explicit_identifier:
  assumes "flag_c fl \<noteq> []"
  shows "main_newCommitHash x gh fl w = (Ok (flag_c fl), w) \<and>
         (\<exists>cs. calls (snd (main x fl w)) = calls w @ cs \<and>
            (\<forall>g owner repo ref. GetRef g owner repo ref \<notin> set cs) \<and>
            (\<forall>g owner repo pr. CreatePullRequest g owner repo pr \<in> set cs \<longrightarrow>
               Head pr = main_branchName (flag_r fl) (flag_e fl) (flag_c fl) \<and>
               Title pr = main_title (flag_r fl) (flag_e fl) (flag_c fl) \<and>
               (\<exists>oldId. Body pr = main_description (flag_o fl) (flag_r fl) oldId (flag_c fl))))"
proof
  show "main_newCommitHash x gh fl w = (Ok (flag_c fl), w)"
    using assms by (simp add: main_newCommitHash_def)
next
  define P where "P = (\<lambda>c. (\<forall>g owner repo ref. c \<noteq> GetRef g owner repo ref) \<and>
     (\<forall>g owner repo pr. c = CreatePullRequest g owner repo pr \<longrightarrow>
        Head pr = main_branchName (flag_r fl) (flag_e fl) (flag_c fl) \<and>
        Title pr = main_title (flag_r fl) (flag_e fl) (flag_c fl) \<and>
        (\<exists>oldId. Body pr = main_description (flag_o fl) (flag_r fl) oldId (flag_c fl))))"
  have "extends_with P w (snd (main x fl w))"
  proof (rule main_extends)
    show "P (Exec name args)" for name args by (simp add: P_def)
  next
    fix g assume "flag_c fl = []"
    with assms have False by simp
    then show "P (GetRef g (flag_o fl) (flag_r fl) (''refs/heads/'' @ flag_m fl))" ..
  next
    fix g newId oldId
    assume "flag_c fl \<noteq> [] \<longrightarrow> newId = flag_c fl"
    with assms have n: "newId = flag_c fl" by simp
    have "\<exists>o'. main_description (flag_o fl) (flag_r fl) oldId (flag_c fl) =
        main_description (flag_o fl) (flag_r fl) o' (flag_c fl)"
      by (rule exI[of _ oldId]) (rule refl)
    then show "P (CreatePullRequest g (flag_o fl) ''devops''
          \<lparr>Title = main_title (flag_r fl) (flag_e fl) newId,
           Body = main_description (flag_o fl) (flag_r fl) oldId newId,
           Head = main_branchName (flag_r fl) (flag_e fl) newId, Base = flag_m fl\<rparr>)"
      unfolding P_def n by simp
  qed
  then obtain cs where cs: "calls (snd (main x fl w)) = calls w @ cs" "list_all P cs"
    unfolding extends_with_def by blast
  from cs(2) have all: "\<forall>c\<in>set cs. P c" by (simp add: list_all_iff)
  have g: "GetRef g owner repo ref \<notin> set cs" for g owner repo ref
  proof
    assume "GetRef g owner repo ref \<in> set cs"
    with all have "P (GetRef g owner repo ref)" by blast
    then show False by (simp add: P_def)
  qed
  have p: "Head pr = main_branchName (flag_r fl) (flag_e fl) (flag_c fl) \<and>
           Title pr = main_title (flag_r fl) (flag_e fl) (flag_c fl) \<and>
           (\<exists>oldId. Body pr = main_description (flag_o fl) (flag_r fl) oldId (flag_c fl))"
    if "CreatePullRequest g owner repo pr \<in> set cs" for g owner repo pr
  proof -
    from that all have "P (CreatePullRequest g owner repo pr)" by blast
    then show ?thesis by (simp add: P_def)
  qed
  from cs(1) g p show "\<exists>cs. calls (snd (main x fl w)) = calls w @ cs \<and>
            (\<forall>g owner repo ref. GetRef g owner repo ref \<notin> set cs) \<and>
            (\<forall>g owner repo pr. CreatePullRequest g owner repo pr \<in> set cs \<longrightarrow>
               Head pr = main_branchName (flag_r fl) (flag_e fl) (flag_c fl) \<and>
               Title pr = main_title (flag_r fl) (flag_e fl) (flag_c fl) \<and>
               (\<exists>oldId. Body pr = main_description (flag_o fl) (flag_r fl) oldId (flag_c fl)))"
    by blast
qed

theorem main_explicit_identifier_witness:
  "flag_c flags_e2e \<noteq> [] \<and>
   flag_c flags_e2e = ''22222222'' \<and>
   main_newCommitHash ext_success ''gho_token'' flags_e2e (world_of manifest_e2e) =
     (Ok (flag_c flags_e2e), world_of manifest_e2e)"
proof -
  have h: "flag_c flags_e2e \<noteq> []" by (simp add: flags_e2e_def)
  have v: "flag_c flags_e2e = ''22222222''" by (simp add: flags_e2e_def)
  note c = main_explicit_identifier[OF h, of ext_success "''gho_token''" "world_of manifest_e2e", THEN conjunct1]
  show ?thesis by (intro conjI h v c)
qed

subsection \<open>Names and publication\<close>

text \<open>C7: the branch name is \<open>repository_environment_identifier\<close>, the title is the
  repository, the upper-cased environment (\<open>DEV\<close> or \<open>PROD\<close> for the two environments
  \<open>main\<close> accepts) and the identifier separated by spaces, and the description is the
  comparison address on github.com.  Each is a function of its operands alone, so equal
  inputs give equal names.\<close>

theorem main_names:
  "main_branchName repo env newId = repo @ ''_'' @ env @ ''_'' @ newId \<and>
   main_title repo env newId = repo @ '' '' @ strings_ToUpper env @ '' '' @ newId \<and>
   main_title repo ''dev'' newId = repo @ '' DEV '' @ newId \<and>
   main_title repo ''prod'' newId = repo @ '' PROD '' @ newId \<and>
   main_description owner repo oldId newId =
     ''https://github.com/'' @ owner @ ''/'' @ repo @ ''/compare/'' @ oldId @ ''...'' @ newId"
  by (simp add: main_branchName_def main_title_def main_description_def
      strings_ToUpper_dev strings_ToUpper_prod)

text \<open>C9: \<open>createPullRequest\<close> records exactly one call, a pull-request creation under
  the given owner in the repository \<open>devops\<close>.  In a run of \<open>main\<close>, every pull-request
  creation among the calls made is under the owner of \<open>-o\<close>, in \<open>devops\<close> whatever \<open>-r\<close>
  is, against the branch of \<open>-m\<close>; the repository of \<open>-r\<close> enters only the title, the
  description and the head branch.\<close>

theorem pull_request_on_devops:
  "calls (snd (createPullRequest x gh owner branch master title description w)) =
     calls w @ [CreatePullRequest gh owner ''devops''
        \<lparr>Title = title, Body = description, Head = branch, Base = master\<rparr>] \<and>
   (\<exists>cs. calls (snd (main x fl w)) = calls w @ cs \<and>
      (\<forall>g own repo pr. CreatePullRequest g own repo pr \<in> set cs \<longrightarrow>
         own = flag_o fl \<and> repo = ''devops'' \<and> Base pr = flag_m fl \<and>
         (\<exists>newId oldId.
            Title pr = main_title (flag_r fl) (flag_e fl) newId \<and>
            Body pr = main_description (flag_o fl) (flag_r fl) oldId newId \<and>
            Head pr = main_branchName (flag_r fl) (flag_e fl) newId)))"
proof
  show "calls (snd (createPullRequest x gh owner branch master title description w)) =
     calls w @ [CreatePullRequest gh owner ''devops''
        \<lparr>Title = title, Body = description, Head = branch, Base = master\<rparr>]"
    by (simp add: createPullRequest_def Let_def split: sum.splits)
next
  define P where "P = (\<lambda>c. \<forall>g own repo pr. c = CreatePullRequest g own repo pr \<longrightarrow>
         own = flag_o fl \<and> repo = ''devops'' \<and> Base pr = flag_m fl \<and>
         (\<exists>newId oldId.
            Title pr = main_title (flag_r fl) (flag_e fl) newId \<and>
            Body pr = main_description (flag_o fl) (flag_r fl) oldId newId \<and>
            Head pr = main_branchName (flag_r fl) (flag_e fl) newId))"
  have "extends_with P w (snd (main x fl w))"
  proof (rule main_extends)
    show "P (Exec name args)" for name args by (simp add: P_def)
  next
    show "P (GetRef g (flag_o fl) (flag_r fl) (''refs/heads/'' @ flag_m fl))" for g
      by (simp add: P_def)
  next
    show "P (CreatePullRequest g (flag_o fl) ''devops''
          \<lparr>Title = main_title (flag_r fl) (flag_e fl) newId,
           Body = main_description (flag_o fl) (flag_r fl) oldId newId,
           Head = main_branchName (flag_r fl) (flag_e fl) newId, Base = flag_m fl\<rparr>)" for g newId oldId
      by (auto simp: P_def)
  qed
  then obtain cs where cs: "calls (snd (main x fl w)) = calls w @ cs" "list_all P cs"
    unfolding extends_with_def by blast
  from cs(2) have "\<forall>c\<in>set cs. P c" by (simp add: list_all_iff)
  then have "\<forall>g own repo pr. CreatePullRequest g own repo pr \<in> set cs \<longrightarrow>
         own = flag_o fl \<and> repo = ''devops'' \<and> Base pr = flag_m fl \<and>
         (\<exists>newId oldId.
            Title pr = main_title (flag_r fl) (flag_e fl) newId \<and>
            Body pr = main_description (flag_o fl) (flag_r fl) oldId newId \<and>
            Head pr = main_branchName (flag_r fl) (flag_e fl) newId)"
    unfolding P_def by blast
  with cs(1) show "\<exists>cs. calls (snd (main x fl w)) = calls w @ cs \<and>
      (\<forall>g own repo pr. CreatePullRequest g own repo pr \<in> set cs \<longrightarrow>
         own = flag_o fl \<and> repo = ''devops'' \<and> Base pr = flag_m fl \<and>
         (\<exists>newId oldId.
            Title pr = main_title (flag_r fl) (flag_e fl) newId \<and>
            Body pr = main_description (flag_o fl) (flag_r fl) oldId newId \<and>
            Head pr = main_branchName (flag_r fl) (flag_e fl) newId))"
    by blast
qed

theorem pull_request_on_devops_witness:
  "CreatePullRequest ''gho_token'' ''acme'' ''devops''
      \<lparr>Title = ''svc DEV 22222222'',
       Body = ''https://github.com/acme/svc/compare/11111111...22222222'',
       Head = ''svc_dev_22222222'', Base = ''master''\<rparr>
     \<in> set (calls (snd (main ext_success flags_e2e (world_of manifest_e2e)))) \<and>
   flag_r flags_e2e = ''svc'' \<and>
   ''acme'' = flag_o flags_e2e \<and>
   ''master'' = flag_m flags_e2e"
proof -
  let ?pr = "\<lparr>Title = ''svc DEV 22222222'',
       Body = ''https://github.com/acme/svc/compare/11111111...22222222'',
       Head = ''svc_dev_22222222'', Base = ''master''\<rparr>"
  have m: "CreatePullRequest ''gho_token'' ''acme'' ''devops'' ?pr
     \<in> set (calls (snd (main ext_success flags_e2e (world_of manifest_e2e))))"
    by (simp add: main_e2e)
  have r: "flag_r flags_e2e = ''svc''" by (simp add: flags_e2e_def)
  from pull_request_on_devops[of ext_success "''gho_token''" "''acme''" "''b''" "''master''" "''t''" "''d''"
      "world_of manifest_e2e" flags_e2e, THEN conjunct2]
  obtain cs where cs: "calls (snd (main ext_success flags_e2e (world_of manifest_e2e))) =
      calls (world_of manifest_e2e) @ cs"
    and all: "\<forall>g own repo pr. CreatePullRequest g own repo pr \<in> set cs \<longrightarrow>
         own = flag_o flags_e2e \<and> repo = ''devops'' \<and> Base pr = flag_m flags_e2e \<and>
         (\<exists>newId oldId.
            Title pr = main_title (flag_r flags_e2e) (flag_e flags_e2e) newId \<and>
            Body pr = main_description (flag_o flags_e2e) (flag_r flags_e2e) oldId newId \<and>
            Head pr = main_branchName (flag_r flags_e2e) (flag_e flags_e2e) newId)"
    by blast
  from cs have "cs = calls (snd (main ext_success flags_e2e (world_of manifest_e2e)))"
    by (simp add: world_of_def)
  with m have "CreatePullRequest ''gho_token'' ''acme'' ''devops'' ?pr \<in> set cs" by simp
  with all have "''acme'' = flag_o flags_e2e \<and> Base ?pr = flag_m flags_e2e" by blast
  then have o: "''acme'' = flag_o flags_e2e" and b: "''master'' = flag_m flags_e2e" by simp_all
  show ?thesis by (intro conjI m r o b)
qed

end
